theory Spec2Isabelle
  imports Complex_Main "HOL-Library.Product_Lexorder"
begin

section \<open>Data model of the lot state (src/components/camera/types.ts)\<close>

text \<open>
  JavaScript numbers are modelled as follows: array indices that the code only ever uses as
  positions of existing elements are \<open>nat\<close>; \<open>coverIndex\<close> and the image index handed to
  \<open>removeImage\<close> and \<open>setCoverImage\<close> are \<open>int\<close>, because the code computes
  \<open>files.length - 1\<close> (which is \<open>-1\<close> on an empty list) and compares with it; zoom factors
  and screen coordinates are \<open>real\<close> (the ideal values of the doubles, without NaN and
  the infinities); where a claim is about the rounding of doubles, the rounding is an
  argument of the function.
\<close>

datatype CaptureMode = single_lot | per_item | per_photo

text \<open>The normalized focus rectangle \<open>{ x, y, w, h }\<close> stored with a photo.\<close>

record FocusBox =
  box_x :: real
  box_y :: real
  box_w :: real
  box_h :: real

record PhotoFile =
  photo_uri :: string
  photo_displayUri :: "string option"
  photo_name :: string
  photo_type :: string
  photo_width :: "nat option"
  photo_height :: "nat option"
  photo_megapixels :: "real option"
  photo_focusBox :: "FocusBox option"
  photo_adjustments :: "(real \<times> real \<times> real \<times> real) option"

record MixedLot =
  lot_id :: string
  mode :: "CaptureMode option"
  files :: "PhotoFile list"
  extraFiles :: "PhotoFile list"
  coverIndex :: int
  videoFile :: "PhotoFile option"

text \<open>
  \<open>createNewLot\<close> (types.ts): the identifier is built from the clock and a random number,
  so it is an argument here; \<open>mode\<close> and \<open>videoFile\<close> are absent.
\<close>

definition createNewLot :: "string \<Rightarrow> MixedLot" where
  "createNewLot ident =
     \<lparr>lot_id = ident, mode = None, files = [], extraFiles = [], coverIndex = 0,
      videoFile = None\<rparr>"

section \<open>Filing a capture (handleCapture, src/components/camera/CameraScreen.tsx)\<close>

text \<open>
  The updater handed to \<open>setLots\<close> once \<open>takePhoto\<close> has resolved. \<open>updated[activeLotIdx]\<close>
  is \<open>undefined\<close> when the index is past the end of the array; the updater then returns
  \<open>prev\<close>.
\<close>

definition fileCapture ::
  "nat \<Rightarrow> CaptureMode \<Rightarrow> bool \<Rightarrow> PhotoFile \<Rightarrow> MixedLot list \<Rightarrow> MixedLot list" where
  "fileCapture activeLotIdx m isExtra newPhoto prev =
     (if \<not> activeLotIdx < length prev then prev
      else
        let lot = prev ! activeLotIdx in
        if isExtra
        then prev[activeLotIdx := lot\<lparr>extraFiles := newPhoto # extraFiles lot\<rparr>]
        else prev[activeLotIdx := lot\<lparr>mode := Some m, files := newPhoto # files lot\<rparr>])"

text \<open>
  \<open>currentLot?.mode && currentLot.mode !== mode && !isExtra\<close>, with
  \<open>currentLot = lots[activeLotIdx]\<close>.
\<close>

definition modeMismatch :: "MixedLot list \<Rightarrow> nat \<Rightarrow> CaptureMode \<Rightarrow> bool \<Rightarrow> bool" where
  "modeMismatch lots activeLotIdx m isExtra =
     (if \<not> activeLotIdx < length lots then False
      else case mode (lots ! activeLotIdx) of
             None \<Rightarrow> False
           | Some cur \<Rightarrow> cur \<noteq> m \<and> \<not> isExtra)"

text \<open>
  The outcomes of \<open>handleCapture\<close>. The source returns early without touching the lots
  when the camera reference is missing, when a capture is in flight, and on a mode
  mismatch (after raising the "Mode Mismatch" alert); a rejected \<open>takePhoto\<close> promise is
  caught and logged. Otherwise the photo is filed.
\<close>

datatype CaptureOutcome = NoCameraRef | CaptureInFlight | ModeMismatch | CaptureFailed | Filed

text \<open>
  \<open>handleCapture\<close> as a state transformer on the lots. It works on two values of the lots:
  \<^item> \<open>lots\<close> is the array the handler closed over, that is the lots as rendered when the
    capture button is pressed; the early returns and the mode check read it;
  \<^item> \<open>prev\<close> is the argument of the updater handed to \<open>setLots\<close>, that is the lots when
    the photo is filed. The updater runs after the capture delay, the steady wait and the
    \<open>takePhoto\<close> promise, and other updates (an earlier capture, a removal) may have been
    applied in between, so \<open>prev\<close> need not be \<open>lots\<close>.

  \<open>hasCameraRef\<close> stands for \<open>cameraRef.current\<close> and \<open>taken\<close> for the result of the
  driver's \<open>takePhoto\<close> (\<open>None\<close> when the promise is rejected), already wrapped as the
  \<open>PhotoFile\<close> the source builds from it. \<open>capturing\<close> is the state cell of that name; the
  component never calls its setter, so the cell keeps its initial value \<open>false\<close> and the
  test \<open>if (capturing) return\<close> never fires. The result is the outcome and the lots after
  the call; an early return leaves them as they are.
\<close>

definition handleCapture ::
  "bool \<Rightarrow> bool \<Rightarrow> MixedLot list \<Rightarrow> PhotoFile option \<Rightarrow> nat \<Rightarrow> CaptureMode \<Rightarrow> bool
     \<Rightarrow> MixedLot list \<Rightarrow> CaptureOutcome \<times> MixedLot list" where
  "handleCapture hasCameraRef capturing lots taken activeLotIdx m isExtra prev =
     (if \<not> hasCameraRef then (NoCameraRef, prev)
      else if capturing then (CaptureInFlight, prev)
      else if modeMismatch lots activeLotIdx m isExtra then (ModeMismatch, prev)
      else case taken of
             None \<Rightarrow> (CaptureFailed, prev)
           | Some newPhoto \<Rightarrow> (Filed, fileCapture activeLotIdx m isExtra newPhoto prev))"

section \<open>Lot editing (src/components/forms/LotManager.tsx)\<close>

text \<open>\<open>xs.filter((_, i) => i !== imgIdx)\<close>: an index outside the array removes nothing.\<close>

definition filterOutIndex :: "int \<Rightarrow> 'a list \<Rightarrow> 'a list" where
  "filterOutIndex imgIdx xs =
     map fst (filter (\<lambda>(f, i). int i \<noteq> imgIdx) (zip xs [0..<length xs]))"

text \<open>
  \<open>removeImage\<close>: \<open>lot.files\<close> throws a TypeError when \<open>updated[lotIdx]\<close> is undefined, which is
  \<open>None\<close> here.
\<close>

definition removeImage :: "nat \<Rightarrow> int \<Rightarrow> MixedLot list \<Rightarrow> MixedLot list option" where
  "removeImage lotIdx imgIdx prev =
     (if \<not> lotIdx < length prev then None
      else
        let lot = prev ! lotIdx;
            files' = filterOutIndex imgIdx (files lot);
            coverIndex' = max 0 (min (int (length files') - 1) (coverIndex lot))
        in Some (prev[lotIdx := lot\<lparr>files := files', coverIndex := coverIndex'\<rparr>]))"

text \<open>
  The array \<open>setCoverImage\<close> returns. \<open>Stored lots\<close> is an array of lots.
  \<open>StoredPastEnd lots holes c\<close> is the array that holds \<open>lots\<close>, then \<open>holes\<close> empty slots,
  then an object whose only field is \<open>coverIndex = c\<close>: what JavaScript builds when the
  index is not one of the array, since spreading \<open>undefined\<close> adds no field and the
  assignment past the end extends the array. Nothing is raised.
\<close>

datatype CoverStore =
    Stored "MixedLot list"
  | StoredPastEnd "MixedLot list" nat int

text \<open>\<open>setCoverImage\<close>: \<open>updated[lotIdx] = { ...updated[lotIdx], coverIndex: imgIdx }\<close>.\<close>

definition setCoverImage :: "nat \<Rightarrow> int \<Rightarrow> MixedLot list \<Rightarrow> CoverStore" where
  "setCoverImage lotIdx imgIdx prev =
     (if lotIdx < length prev
      then Stored (prev[lotIdx := (prev ! lotIdx)\<lparr>coverIndex := imgIdx\<rparr>])
      else StoredPastEnd prev (lotIdx - length prev) imgIdx)"

section \<open>Sequences of lot operations\<close>

text \<open>
  \<open>coverValid\<close>: the cover index points at an existing main image, or is \<open>0\<close> when there
  is none.
\<close>

definition coverValid :: "MixedLot \<Rightarrow> bool" where
  "coverValid lot =
     (if files lot = [] then coverIndex lot = 0
      else 0 \<le> coverIndex lot \<and> coverIndex lot < int (length (files lot)))"

text \<open>
  The operations on the lots, in the order in which their updaters run. \<open>OpCapture\<close> is a
  capture (with the camera present and the driver returning the photo) and carries the
  lots its handler closed over when the button was pressed, which may be older than the
  lots it is filed into; \<open>OpRemoveImage\<close> is the removal of a main image of a lot. A
  rejected capture and a removal that throws leave the lots as they were.
\<close>

datatype LotOp =
    OpCapture "MixedLot list" nat CaptureMode bool PhotoFile
  | OpRemoveImage nat int

fun applyOp :: "MixedLot list \<Rightarrow> LotOp \<Rightarrow> MixedLot list" where
  "applyOp prev (OpCapture lots activeLotIdx m isExtra newPhoto) =
     snd (handleCapture True False lots (Some newPhoto) activeLotIdx m isExtra prev)"
| "applyOp prev (OpRemoveImage lotIdx imgIdx) =
     (case removeImage lotIdx imgIdx prev of None \<Rightarrow> prev | Some lots' \<Rightarrow> lots')"

definition applyOps :: "MixedLot list \<Rightarrow> LotOp list \<Rightarrow> MixedLot list" where
  "applyOps lots ops = foldl applyOp lots ops"

section \<open>Camera initialisation retry (CameraScreen.tsx, the effect on the missing device)\<close>

text \<open>
  \<open>cameraInitAttempts\<close>, \<open>cameraInitTimedOut\<close>, whether \<open>cameraInitIntervalRef.current\<close>
  holds a running interval, and the time spent waiting on that interval.
\<close>

record CameraInitState =
  cameraInitAttempts :: nat
  cameraInitTimedOut :: bool
  intervalRunning :: bool
  elapsedMs :: nat

definition retryIntervalMs :: nat where
  "retryIntervalMs = 500"

text \<open>The cleanup function returned by the effect: it clears the interval.\<close>

definition retryCleanup :: "CameraInitState \<Rightarrow> CameraInitState" where
  "retryCleanup s = s\<lparr>intervalRunning := False\<rparr>"

text \<open>
  The effect body. \<open>hasDevice\<close> stands for \<open>device\<close> being defined. With the screen hidden,
  the permission missing, a device present or the time-out raised, it clears the interval
  and returns; otherwise it starts the interval unless one is running.
\<close>

definition retryEffect :: "bool \<Rightarrow> bool \<Rightarrow> bool \<Rightarrow> CameraInitState \<Rightarrow> CameraInitState" where
  "retryEffect visible hasCameraPermission hasDevice s =
     (if \<not> visible \<or> \<not> hasCameraPermission \<or> hasDevice \<or> cameraInitTimedOut s
      then s\<lparr>intervalRunning := False\<rparr>
      else if \<not> intervalRunning s then s\<lparr>intervalRunning := True\<rparr> else s)"

text \<open>
  The interval callback: the updater of \<open>setCameraInitAttempts\<close>, which raises the
  time-out and clears the interval once \<open>next >= 10\<close>.
\<close>

definition intervalTick :: "CameraInitState \<Rightarrow> CameraInitState" where
  "intervalTick s =
     (let next = cameraInitAttempts s + 1 in
      if next \<ge> 10
      then s\<lparr>cameraInitAttempts := next, cameraInitTimedOut := True, intervalRunning := False\<rparr>
      else s\<lparr>cameraInitAttempts := next\<rparr>)"

text \<open>
  One poll: if the interval is running it fires after \<open>retryIntervalMs\<close>; the attempt count
  is a dependency of the effect, so React then runs the cleanup and the effect again.
  Without a running interval nothing happens any more.
\<close>

definition pollOnce :: "bool \<Rightarrow> bool \<Rightarrow> bool \<Rightarrow> CameraInitState \<Rightarrow> CameraInitState" where
  "pollOnce visible hasCameraPermission hasDevice s =
     (if \<not> intervalRunning s then s
      else retryEffect visible hasCameraPermission hasDevice
             (retryCleanup (intervalTick (s\<lparr>elapsedMs := elapsedMs s + retryIntervalMs\<rparr>))))"

text \<open>
  Opening the screen resets the attempts and the time-out; the effect then runs with the
  screen visible, the permission granted and no device.
\<close>

definition cameraInitOnOpen :: CameraInitState where
  "cameraInitOnOpen =
     retryEffect True True False
       \<lparr>cameraInitAttempts = 0, cameraInitTimedOut = False, intervalRunning = False,
        elapsedMs = 0\<rparr>"

text \<open>\<open>n\<close> consecutive polls during which no device shows up.\<close>

fun emptyPolls :: "nat \<Rightarrow> CameraInitState" where
  "emptyPolls 0 = cameraInitOnOpen"
| "emptyPolls (Suc n) = pollOnce True True False (emptyPolls n)"

section \<open>Resolution preset (CameraScreen.tsx)\<close>

text \<open>\<open>type ResolutionPreset = "auto" | "max" | number\<close>.\<close>

datatype ResolutionPreset = PresetAuto | PresetMax | PresetMP real

record ResolutionState =
  st_resolutionPreset :: ResolutionPreset
  st_maxResolutionMode :: bool

text \<open>\<open>applyResolutionPreset\<close>: the parameter is named \<open>_preset\<close> and is not read.\<close>

definition applyResolutionPreset :: "ResolutionPreset \<Rightarrow> ResolutionState \<Rightarrow> ResolutionState" where
  "applyResolutionPreset preset s =
     s\<lparr>st_resolutionPreset := PresetMax, st_maxResolutionMode := True\<rparr>"

text \<open>
  The effect on \<open>visible\<close>, as far as the resolution state goes (it also loads the stored
  performance mode, which does not touch this state).
\<close>

definition visibleEffect :: "bool \<Rightarrow> ResolutionState \<Rightarrow> ResolutionState" where
  "visibleEffect visible s = (if \<not> visible then s else applyResolutionPreset PresetMax s)"

section \<open>Camera devices and formats\<close>

text \<open>
  The fields of the camera library's \<open>CameraDevice\<close> and \<open>CameraDeviceFormat\<close> that the
  modelled code reads. Pixel sizes are natural numbers.
\<close>

datatype PhysicalCameraDeviceType = ultra_wide_angle_camera | wide_angle_camera | telephoto_camera

datatype CameraPosition = Front | Back | External

record CameraDeviceFormat =
  photoWidth :: nat
  photoHeight :: nat
  videoWidth :: nat
  videoHeight :: nat
  maxFps :: real

record CameraDevice =
  device_id :: string
  position :: CameraPosition
  physicalDevices :: "PhysicalCameraDeviceType list"
  formats :: "CameraDeviceFormat list"
  dev_minZoom :: real
  dev_maxZoom :: real
  dev_neutralZoom :: real

section \<open>Zoom (CameraScreen.tsx)\<close>

text \<open>
  \<open>minZoom\<close>, \<open>maxZoom\<close> and \<open>neutralZoom\<close> as the component derives them from the
  selected device (\<open>device?.minZoom ?? 1\<close> and so on).
\<close>

definition neutralZoom :: "CameraDevice option \<Rightarrow> real" where
  "neutralZoom device = (case device of None \<Rightarrow> 1 | Some d \<Rightarrow> dev_neutralZoom d)"

definition maxZoom :: "CameraDevice option \<Rightarrow> real" where
  "maxZoom device = (case device of None \<Rightarrow> 1 | Some d \<Rightarrow> dev_maxZoom d)"

definition minZoom :: "CameraDevice option \<Rightarrow> bool \<Rightarrow> real" where
  "minZoom device maxResolutionMode =
     (if maxResolutionMode then (case device of None \<Rightarrow> 1 | Some d \<Rightarrow> dev_neutralZoom d)
      else (case device of None \<Rightarrow> 1 | Some d \<Rightarrow> dev_minZoom d))"

text \<open>\<open>physicalDevices?.includes(k)\<close>: falsy without a device.\<close>

definition includesPhysical :: "CameraDevice option \<Rightarrow> PhysicalCameraDeviceType \<Rightarrow> bool" where
  "includesPhysical device k =
     (case device of None \<Rightarrow> False | Some d \<Rightarrow> k \<in> set (physicalDevices d))"

text \<open>
  The \<open>zoomPresets\<close> memo: the list of \<open>{ label, value }\<close> in the order of the pushes.
  Here the arithmetic is that of doubles: the zoom factors of the device are doubles, the
  comparisons and \<open>Math.min\<close> are exact on them, and each product, the sum and the literal
  \<open>0.05\<close> are rounded to a double. \<open>rnd\<close> is that rounding; with the identity for \<open>rnd\<close> the
  arithmetic is exact.
\<close>

definition zoomPresets ::
  "(real \<Rightarrow> real) \<Rightarrow> CameraDevice option \<Rightarrow> bool \<Rightarrow> (string \<times> real) list" where
  "zoomPresets rnd device maxResolutionMode =
     (let minZ = minZoom device maxResolutionMode;
          maxZ = maxZoom device;
          neutralZ = neutralZoom device;
          hasUltraWide = (\<not> maxResolutionMode \<and>
             (includesPhysical device ultra_wide_angle_camera
              \<or> neutralZ > rnd (minZ + rnd (5 / 100))));
          hasTelephoto = includesPhysical device telephoto_camera;
          twoX = rnd (neutralZ * 2);
          threeX = rnd (neutralZ * 3);
          fiveX = rnd (neutralZ * 5)
      in (if hasUltraWide \<and> minZ < neutralZ then [(''UW'', minZ)] else [])
         @ [(''1x'', neutralZ)]
         @ (if maxZ \<ge> twoX then [(''2x'', twoX)] else [])
         @ (if hasTelephoto \<or> maxZ \<ge> threeX then [(''3x'', min threeX maxZ)] else [])
         @ (if maxZ \<ge> fiveX then [(''5x'', fiveX)] else []))"

text \<open>
  The rounding of \<open>x\<close> has a relative error of at most \<open>u\<close>. Rounding to the nearest double
  has it for \<open>u = 2 ^ -53\<close> on the range of the normal doubles.
\<close>

definition roundsWithin :: "real \<Rightarrow> (real \<Rightarrow> real) \<Rightarrow> real \<Rightarrow> bool" where
  "roundsWithin u rnd x = (\<bar>rnd x - x\<bar> \<le> u * \<bar>x\<bar>)"

text \<open>
  The pairs of an earlier and a later entry of a list, and those of them whose factors
  are equal within the tolerance \<open>tol\<close>.
\<close>

fun orderedPairs :: "'a list \<Rightarrow> ('a \<times> 'a) list" where
  "orderedPairs [] = []"
| "orderedPairs (x # xs) = map (Pair x) xs @ orderedPairs xs"

definition nearPairs ::
  "real \<Rightarrow> (string \<times> real) list \<Rightarrow> ((string \<times> real) \<times> (string \<times> real)) list" where
  "nearPairs tol ps = filter (\<lambda>(p, q). \<bar>snd p - snd q\<bar> \<le> tol) (orderedPairs ps)"

text \<open>The shared values \<open>zoom\<close>, \<open>pinchStartZoom\<close>, \<open>lastZoomReported\<close> and the state \<open>currentZoom\<close>.\<close>

record ZoomState =
  zoom :: real
  pinchStartZoom :: real
  lastZoomReported :: real
  currentZoom :: real

text \<open>\<open>setZoomLevel\<close>, which a preset press calls with the preset's value.\<close>

definition setZoomLevel :: "real \<Rightarrow> real \<Rightarrow> real \<Rightarrow> ZoomState \<Rightarrow> ZoomState" where
  "setZoomLevel minZ maxZ level s =
     (let clamped = max minZ (min level maxZ) in
      s\<lparr>zoom := clamped, pinchStartZoom := clamped, lastZoomReported := clamped,
        currentZoom := clamped\<rparr>)"

text \<open>
  \<open>interpolate(x, [i0, i1, i2], [o0, o1, o2], Extrapolate.CLAMP)\<close> of the animation
  library, which is not part of the repository. It is modelled after the library's
  implementation: it picks the segment of the input range that holds \<open>x\<close> (the last one
  when \<open>x\<close> is beyond the range), maps \<open>x\<close> linearly onto the segment's outputs and, with
  CLAMP, returns the nearer output edge when the value leaves the segment's outputs.
\<close>

definition interpolateSegment :: "real \<Rightarrow> real \<Rightarrow> real \<Rightarrow> real \<Rightarrow> real \<Rightarrow> real" where
  "interpolateSegment x leftEdgeInput rightEdgeInput leftEdgeOutput rightEdgeOutput =
     (if rightEdgeInput - leftEdgeInput = 0 then leftEdgeOutput
      else
        let progress = (x - leftEdgeInput) / (rightEdgeInput - leftEdgeInput);
            val = leftEdgeOutput + progress * (rightEdgeOutput - leftEdgeOutput);
            coef = (if rightEdgeOutput \<ge> leftEdgeOutput then 1 else - 1)
        in if coef * val < coef * leftEdgeOutput then leftEdgeOutput
           else if coef * val > coef * rightEdgeOutput then rightEdgeOutput
           else val)"

definition interpolateClamp :: "real \<Rightarrow> real \<times> real \<times> real \<Rightarrow> real \<times> real \<times> real \<Rightarrow> real" where
  "interpolateClamp x inputRange outputRange =
     (case (inputRange, outputRange) of ((i0, i1, i2), (o0, o1, o2)) \<Rightarrow>
        if x > i2 then interpolateSegment x i1 i2 o1 o2
        else if x \<le> i1 then interpolateSegment x i0 i1 o0 o1
        else interpolateSegment x i1 i2 o1 o2)"

definition SCALE_FULL_ZOOM :: real where
  "SCALE_FULL_ZOOM = 3"

text \<open>The pinch gesture: \<open>onBegin\<close> records the anchor, \<open>onUpdate\<close> maps the gesture's scale.\<close>

definition pinchBegin :: "ZoomState \<Rightarrow> ZoomState" where
  "pinchBegin s = s\<lparr>pinchStartZoom := zoom s\<rparr>"

definition pinchUpdate :: "real \<Rightarrow> real \<Rightarrow> real \<Rightarrow> ZoomState \<Rightarrow> ZoomState" where
  "pinchUpdate minZ maxZ eventScale s =
     (let scale = interpolateClamp eventScale (1 - 1 / SCALE_FULL_ZOOM, 1, SCALE_FULL_ZOOM)
                    (- 1, 0, 1)
      in s\<lparr>zoom := interpolateClamp scale (- 1, 0, 1) (minZ, pinchStartZoom s, maxZ)\<rparr>)"

section \<open>Focus mapping (CameraScreen.tsx)\<close>

text \<open>
  The values \<open>computeNormalizedFocusBox\<close> reads from the component: the focus switch, the
  measured rectangle of the focus guide (\<open>x\<close>, \<open>y\<close>, \<open>width\<close>, \<open>height\<close>) if there is one,
  the orientation, the measured size of the camera view and the window size.
\<close>

record FocusEnv =
  focusOn :: bool
  focusBoxRect :: "(real \<times> real \<times> real \<times> real) option"
  isLandscape :: bool
  cameraViewWidth :: real
  cameraViewHeight :: real
  windowWidth :: real
  windowHeight :: real

text \<open>\<open>a || b\<close> on numbers: \<open>b\<close> when \<open>a\<close> is \<open>0\<close>.\<close>

definition orElse :: "real \<Rightarrow> real \<Rightarrow> real" where
  "orElse a b = (if a \<noteq> 0 then a else b)"

text \<open>The \<open>portraitPreviewRect\<close> memo: \<open>(left, top, width, height)\<close> of the 3:4 preview.\<close>

definition portraitPreviewRect :: "FocusEnv \<Rightarrow> real \<times> real \<times> real \<times> real" where
  "portraitPreviewRect env =
     (let vw = orElse (cameraViewWidth env) (windowWidth env);
          vh = orElse (cameraViewHeight env) (windowHeight env);
          width0 = vw;
          height0 = (vw * 4) / 3;
          height = (if height0 > vh then vh else height0);
          width = (if height0 > vh then (vh * 3) / 4 else width0);
          rectLeft = max 0 ((vw - width) / 2);
          rectTop = max 0 ((vh - height) / 2)
      in (rectLeft, rectTop, width, height))"

text \<open>\<open>previewLeft\<close>, \<open>previewTop\<close>, \<open>previewWidth\<close>, \<open>previewHeight\<close>.\<close>

definition previewGeometry :: "FocusEnv \<Rightarrow> real \<times> real \<times> real \<times> real" where
  "previewGeometry env =
     (case portraitPreviewRect env of (rectLeft, rectTop, width, height) \<Rightarrow>
        (if \<not> isLandscape env then rectLeft else 0,
         if \<not> isLandscape env then rectTop else 0,
         if \<not> isLandscape env then width
         else orElse (cameraViewWidth env) (windowWidth env),
         if \<not> isLandscape env then height
         else orElse (cameraViewHeight env) (windowHeight env)))"

text \<open>
  The intersection of the guide rectangle with the preview, normalized to the preview:
  \<open>(normX, normY, normW, normH)\<close> before the orientation swap, or \<open>None\<close> when the
  intersection is narrower or lower than 8 pixels.
\<close>

definition normalizedIntersection ::
  "real \<times> real \<times> real \<times> real \<Rightarrow> real \<times> real \<times> real \<times> real
     \<Rightarrow> (real \<times> real \<times> real \<times> real) option" where
  "normalizedIntersection preview rect =
     (case (preview, rect) of
        ((previewLeft, previewTop, previewWidth, previewHeight), (rx, ry, rwidth, rheight)) \<Rightarrow>
        let boxLeft = max previewLeft rx;
            boxTop = max previewTop ry;
            boxRight = min (previewLeft + previewWidth) (rx + rwidth);
            boxBottom = min (previewTop + previewHeight) (ry + rheight);
            intersectionW = boxRight - boxLeft;
            intersectionH = boxBottom - boxTop
        in if intersectionW < 8 \<or> intersectionH < 8 then None
           else Some ((boxLeft - previewLeft) / previewWidth,
                      (boxTop - previewTop) / previewHeight,
                      intersectionW / previewWidth,
                      intersectionH / previewHeight))"

text \<open>\<open>imageLandscape !== previewLandscape\<close>.\<close>

definition orientationDiffers :: "FocusEnv \<Rightarrow> real \<Rightarrow> real \<Rightarrow> bool" where
  "orientationDiffers env imageWidth imageHeight =
     (case previewGeometry env of (previewLeft, previewTop, previewWidth, previewHeight) \<Rightarrow>
        (imageWidth \<ge> imageHeight) \<noteq> (previewWidth \<ge> previewHeight))"

text \<open>
  \<open>computeNormalizedFocusBox\<close>. The \<open>Number.isFinite\<close> tests hold for every real number.
\<close>

definition computeNormalizedFocusBox :: "FocusEnv \<Rightarrow> real \<Rightarrow> real \<Rightarrow> FocusBox option" where
  "computeNormalizedFocusBox env imageWidth imageHeight =
     (case focusBoxRect env of
        None \<Rightarrow> None
      | Some rect \<Rightarrow>
        (if \<not> focusOn env then None
         else
           (case previewGeometry env of
              (previewLeft, previewTop, previewWidth, previewHeight) \<Rightarrow>
              (if previewWidth \<le> 0 \<or> previewHeight \<le> 0 then None
               else
                 (case normalizedIntersection
                         (previewLeft, previewTop, previewWidth, previewHeight) rect of
                    None \<Rightarrow> None
                  | Some (tmpX, tmpY, tmpW, tmpH) \<Rightarrow>
                    (let swap = orientationDiffers env imageWidth imageHeight;
                         normX0 = (if swap then 1 - (tmpY + tmpH) else tmpX);
                         normY0 = (if swap then tmpX else tmpY);
                         normW0 = (if swap then tmpH else tmpW);
                         normH0 = (if swap then tmpW else tmpH);
                         normX = max 0 (min 1 normX0);
                         normY = max 0 (min 1 normY0);
                         normW = max 0 (min (1 - normX) normW0);
                         normH = max 0 (min (1 - normY) normH0)
                     in (if normW < 0.01 \<or> normH < 0.01 then None
                         else Some \<lparr>box_x = normX, box_y = normY, box_w = normW,
                                     box_h = normH\<rparr>)))))))"

section \<open>Device and format selection (CameraScreen.tsx)\<close>

definition photoPixels :: "CameraDeviceFormat \<Rightarrow> nat" where
  "photoPixels f = photoWidth f * photoHeight f"

definition videoPixels :: "CameraDeviceFormat \<Rightarrow> nat" where
  "videoPixels f = videoWidth f * videoHeight f"

text \<open>\<open>calcMegapixels\<close>: \<open>undefined\<close> when a side is \<open>0\<close>.\<close>

definition calcMegapixels :: "nat \<Rightarrow> nat \<Rightarrow> real option" where
  "calcMegapixels width height =
     (if width = 0 \<or> height = 0 then None else Some (real (width * height) / 1000000))"

text \<open>\<open>getMaxFormatMegapixels\<close>: the loop keeps the greatest megapixel value above \<open>0\<close>.\<close>

fun maxMegapixelsLoop :: "CameraDeviceFormat list \<Rightarrow> real \<Rightarrow> real" where
  "maxMegapixelsLoop [] mx = mx"
| "maxMegapixelsLoop (f # fs) mx =
     (case calcMegapixels (photoWidth f) (photoHeight f) of
        None \<Rightarrow> maxMegapixelsLoop fs mx
      | Some mp \<Rightarrow> if mp \<noteq> 0 \<and> mp > mx then maxMegapixelsLoop fs mp
                   else maxMegapixelsLoop fs mx)"

definition getMaxFormatMegapixels :: "CameraDeviceFormat list \<Rightarrow> real option" where
  "getMaxFormatMegapixels fs =
     (let mx = maxMegapixelsLoop fs 0 in if mx > 0 then Some mx else None)"

text \<open>\<open>getAspectPenalty\<close>.\<close>

definition getAspectPenalty :: "nat \<Rightarrow> nat \<Rightarrow> real" where
  "getAspectPenalty width height =
     (if width = 0 \<or> height = 0 then 1
      else \<bar>real (max width height) / real (min width height) - 4 / 3\<bar>)"

text \<open>\<open>xs.sort(cmp)[0]\<close> for a stable sort by a key, \<open>undefined\<close> on the empty array.\<close>

definition firstSortedBy :: "('a \<Rightarrow> 'k::linorder) \<Rightarrow> 'a list \<Rightarrow> 'a option" where
  "firstSortedBy key xs = (case sort_key key xs of [] \<Rightarrow> None | x # _ \<Rightarrow> Some x)"

text \<open>
  The score of a format under the presets other than \<open>max\<close>. A megapixel target of \<open>0\<close>
  would divide by zero in the source; the targets the component offers are at least 5.
\<close>

definition formatScore :: "ResolutionPreset \<Rightarrow> real \<Rightarrow> CameraDeviceFormat \<Rightarrow> real" where
  "formatScore preset minRecommendedMP f =
     (let w = photoWidth f;
          h = photoHeight f;
          pixels = real (w * h);
          mp = pixels / 1000000;
          aspectPenalty = getAspectPenalty w h;
          smallPenalty = (if mp < minRecommendedMP then (minRecommendedMP - mp) * 5 else 0);
          targetPenalty =
            (case preset of
               PresetMP n \<Rightarrow>
                 let targetPixels = n * 1000000; diff = pixels - targetPixels
                 in if diff \<ge> 0 then diff / targetPixels else \<bar>diff\<bar> / targetPixels + 2
             | PresetAuto \<Rightarrow> - mp
             | PresetMax \<Rightarrow> 0);
          fpsPenalty = (if maxFps f < 30 then 2 else 0)
      in aspectPenalty * 2 + smallPenalty + targetPenalty + fpsPenalty)"

text \<open>
  \<open>pickBestPhotoFormat\<close>. \<open>isAndroid\<close> stands for \<open>Platform.OS === "android"\<close>. The
  comparators sort in descending order, which is ascending order of the negated keys.
\<close>

definition pickBestPhotoFormat ::
  "bool \<Rightarrow> CameraDeviceFormat list \<Rightarrow> ResolutionPreset \<Rightarrow> real \<Rightarrow> CameraDeviceFormat option" where
  "pickBestPhotoFormat isAndroid fs preset minRecommendedMP =
     (if fs = [] then None
      else if preset = PresetMax then
        let mapped = filter (\<lambda>x. photoPixels x > 0) fs in
        if isAndroid then
          let maxVideoPixels = foldl (\<lambda>best x. max best (videoPixels x)) 0 mapped;
              nearMaxVideo =
                (if maxVideoPixels > 0
                 then filter (\<lambda>x. videoPixels x > 0 \<and>
                                real (videoPixels x) \<ge> real maxVideoPixels * 0.9) mapped
                 else filter (\<lambda>x. videoPixels x > 0) mapped);
              candidates = (if nearMaxVideo \<noteq> [] then nearMaxVideo else mapped)
          in firstSortedBy (\<lambda>x. (- int (videoPixels x), - int (photoPixels x))) candidates
        else firstSortedBy (\<lambda>x. - int (photoPixels x)) mapped
      else firstSortedBy (formatScore preset minRecommendedMP) fs)"

text \<open>
  \<open>formats.reduce((best, f) => pixels(f) > pixels(best) ? f : best, null)\<close>, where the
  pixels of \<open>null\<close> are \<open>0\<close>; \<open>keepLarger\<close> is the callback.
\<close>

definition keepLarger ::
  "(CameraDeviceFormat \<Rightarrow> nat) \<Rightarrow> CameraDeviceFormat option \<Rightarrow> CameraDeviceFormat
     \<Rightarrow> CameraDeviceFormat option" where
  "keepLarger pixelsOf best f =
     (let pixels = pixelsOf f;
          bestPixels = (case best of None \<Rightarrow> 0 | Some b \<Rightarrow> pixelsOf b)
      in if pixels > bestPixels then Some f else best)"

definition reduceMaxPixels ::
  "(CameraDeviceFormat \<Rightarrow> nat) \<Rightarrow> CameraDeviceFormat list \<Rightarrow> CameraDeviceFormat option" where
  "reduceMaxPixels pixelsOf fs = foldl (keepLarger pixelsOf) None fs"

text \<open>\<open>enableVideoUseCase\<close>.\<close>

definition enableVideoUseCase :: "bool \<Rightarrow> bool \<Rightarrow> bool \<Rightarrow> bool" where
  "enableVideoUseCase isAndroid forceVideoUseCase isRecording =
     (if \<not> isAndroid then True else forceVideoUseCase \<or> isRecording)"

text \<open>The \<open>selectedFormat\<close> memo, with \<open>minMP = 10\<close>.\<close>

definition selectedFormat ::
  "bool \<Rightarrow> bool \<Rightarrow> ResolutionPreset \<Rightarrow> CameraDevice option \<Rightarrow> CameraDeviceFormat option" where
  "selectedFormat isAndroid videoUseCase preset device =
     (case device of
        None \<Rightarrow> None
      | Some d \<Rightarrow>
        if \<not> isAndroid \<or> preset \<noteq> PresetMax
        then pickBestPhotoFormat isAndroid (formats d) preset 10
        else if \<not> videoUseCase then reduceMaxPixels photoPixels (formats d)
        else reduceMaxPixels videoPixels (formats d))"

text \<open>\<open>scoreDevice\<close>, local to the \<open>bestHighResDevice\<close> memo.\<close>

definition scoreDevice :: "CameraDevice \<Rightarrow> int" where
  "scoreDevice dev =
     (let phys = physicalDevices dev;
          hasWide = wide_angle_camera \<in> set phys;
          hasUltra = ultra_wide_angle_camera \<in> set phys;
          hasTele = telephoto_camera \<in> set phys;
          physLen = length phys
      in (if hasWide then 100 else 0) + (if physLen = 1 then 10 else 0)
         + (if hasUltra then - 1 else 0) + (if hasTele then - 1 else 0))"

text \<open>
  The two nested loops of \<open>bestHighResDevice\<close> over the pair \<open>(bestDevice, bestPixels)\<close>;
  \<open>formatStep\<close> is the body of the inner loop.
\<close>

definition formatStep ::
  "CameraDevice \<Rightarrow> CameraDeviceFormat \<Rightarrow> CameraDevice option \<times> nat
     \<Rightarrow> CameraDevice option \<times> nat" where
  "formatStep dev fmt acc =
     (case acc of (bestDevice, bestPixels) \<Rightarrow>
        let pixels = photoWidth fmt * photoHeight fmt in
        if pixels > bestPixels then (Some dev, pixels)
        else if pixels = bestPixels \<and> bestDevice \<noteq> None then
          (if scoreDevice dev > scoreDevice (the bestDevice) then (Some dev, bestPixels)
           else (bestDevice, bestPixels))
        else (bestDevice, bestPixels))"

fun scanFormats ::
  "CameraDevice \<Rightarrow> CameraDeviceFormat list \<Rightarrow> CameraDevice option \<times> nat
     \<Rightarrow> CameraDevice option \<times> nat" where
  "scanFormats dev [] acc = acc"
| "scanFormats dev (fmt # fmts) acc = scanFormats dev fmts (formatStep dev fmt acc)"

fun scanDevices ::
  "CameraDevice list \<Rightarrow> CameraDevice option \<times> nat \<Rightarrow> CameraDevice option \<times> nat" where
  "scanDevices [] acc = acc"
| "scanDevices (dev # devs) acc =
     (if position dev \<noteq> Back then scanDevices devs acc
      else scanDevices devs (scanFormats dev (formats dev) acc))"

definition bestHighResDevice :: "CameraDevice list \<Rightarrow> CameraDevice option" where
  "bestHighResDevice allDevices =
     (if allDevices = [] then None else fst (scanDevices allDevices (None, 0)))"

text \<open>
  The \<open>bestDeviceForMaxRes\<close> memo: the candidates in the order wide, multi, default, each
  with its greatest megapixel value when it has one, sorted by it in descending order.
\<close>

definition maxResCandidate :: "CameraDevice option \<Rightarrow> (CameraDevice \<times> real) list" where
  "maxResCandidate device =
     (case device of
        None \<Rightarrow> []
      | Some d \<Rightarrow> (case getMaxFormatMegapixels (formats d) of
                     None \<Rightarrow> []
                   | Some mp \<Rightarrow> [(d, mp)]))"

definition bestDeviceForMaxRes ::
  "CameraDevice option \<Rightarrow> CameraDevice option \<Rightarrow> CameraDevice option \<Rightarrow> CameraDevice option" where
  "bestDeviceForMaxRes deviceWide deviceMulti deviceDefault =
     map_option fst
       (firstSortedBy (\<lambda>c. - snd c)
          (maxResCandidate deviceWide @ maxResCandidate deviceMulti
           @ maxResCandidate deviceDefault))"

text \<open>\<open>a ?? b\<close>.\<close>

definition nullish :: "'a option \<Rightarrow> 'a option \<Rightarrow> 'a option" where
  "nullish a b = (case a of None \<Rightarrow> b | Some v \<Rightarrow> Some v)"

text \<open>
  The \<open>device\<close> memo. \<open>deviceWide\<close>, \<open>deviceMulti\<close> and \<open>deviceDefault\<close> are the results of the
  camera library's device hooks and are arguments here. When the first branch returns
  nothing, control leaves the conditional and reaches the last two lines.
\<close>

definition selectDevice ::
  "bool \<Rightarrow> ResolutionPreset \<Rightarrow> CameraDevice list \<Rightarrow> CameraDevice option \<Rightarrow> CameraDevice option
     \<Rightarrow> CameraDevice option \<Rightarrow> CameraDevice option" where
  "selectDevice maxResolutionMode preset allDevices deviceWide deviceMulti deviceDefault =
     (let deviceWideMaxMP = (case deviceWide of None \<Rightarrow> None
                             | Some d \<Rightarrow> getMaxFormatMegapixels (formats d));
          deviceMultiMaxMP = (case deviceMulti of None \<Rightarrow> None
                              | Some d \<Rightarrow> getMaxFormatMegapixels (formats d));
          deviceDefaultMaxMP = (case deviceDefault of None \<Rightarrow> None
                                | Some d \<Rightarrow> getMaxFormatMegapixels (formats d));
          forMaxRes = bestDeviceForMaxRes deviceWide deviceMulti deviceDefault
      in if maxResolutionMode \<and> preset = PresetMax then
           (case bestHighResDevice allDevices of
              Some d \<Rightarrow> Some d
            | None \<Rightarrow>
              (case deviceWide of
                 Some d \<Rightarrow> Some d
               | None \<Rightarrow>
                 (case forMaxRes of
                    Some d \<Rightarrow> Some d
                  | None \<Rightarrow> nullish deviceMulti deviceDefault)))
         else if maxResolutionMode then
           (if deviceWide \<noteq> None \<and> deviceWideMaxMP = None then deviceWide
            else if deviceWide \<noteq> None \<and> deviceWideMaxMP \<noteq> None
                    \<and> the deviceWideMaxMP \<ge> (case deviceMultiMaxMP of None \<Rightarrow> 0 | Some v \<Rightarrow> v)
                    \<and> the deviceWideMaxMP \<ge> (case deviceDefaultMaxMP of None \<Rightarrow> 0 | Some v \<Rightarrow> v)
            then deviceWide
            else nullish forMaxRes deviceDefault)
         else nullish deviceMulti deviceDefault)"

text \<open>
  The pairs of a back camera of the device list and one of its formats: what the scan of
  \<open>bestHighResDevice\<close> visits.
\<close>

definition backFormats :: "CameraDevice list \<Rightarrow> (CameraDevice \<times> CameraDeviceFormat) set" where
  "backFormats allDevices =
     {(d, f). d \<in> set allDevices \<and> position d = Back \<and> f \<in> set (formats d)}"

text \<open>
  The invariant of the scan over the pairs \<open>S\<close> visited so far: no visited format has more
  pixels than \<open>bestPixels\<close>; without a best device \<open>bestPixels\<close> is \<open>0\<close>; a best device has a
  visited format with \<open>bestPixels > 0\<close> pixels and the greatest score among the devices
  visited with that many pixels.
\<close>

definition scanInv ::
  "(CameraDevice \<times> CameraDeviceFormat) set \<Rightarrow> CameraDevice option \<times> nat \<Rightarrow> bool" where
  "scanInv S acc =
     (case acc of (bestDevice, bestPixels) \<Rightarrow>
        (\<forall>(d', f') \<in> S. photoPixels f' \<le> bestPixels)
        \<and> (case bestDevice of
             None \<Rightarrow> bestPixels = 0
           | Some d \<Rightarrow> 0 < bestPixels \<and> (\<exists>f. (d, f) \<in> S \<and> photoPixels f = bestPixels)
               \<and> (\<forall>(d', f') \<in> S. photoPixels f' = bestPixels
                      \<longrightarrow> scoreDevice d' \<le> scoreDevice d)))"

section \<open>Example values\<close>

definition examplePhoto :: "string \<Rightarrow> PhotoFile" where
  "examplePhoto u =
     \<lparr>photo_uri = u, photo_displayUri = None, photo_name = u, photo_type = ''image/jpeg'',
      photo_width = Some 4000, photo_height = Some 3000, photo_megapixels = Some 12,
      photo_focusBox = None, photo_adjustments = None\<rparr>"

text \<open>A lot in Bundle mode with two main images.\<close>

definition bundleLot :: MixedLot where
  "bundleLot =
     \<lparr>lot_id = ''lot-1'', mode = Some single_lot,
      files = [examplePhoto ''b'', examplePhoto ''a''], extraFiles = [], coverIndex = 0,
      videoFile = None\<rparr>"

text \<open>Formats of 12, 48 and 63 megapixels.\<close>

definition format12 :: CameraDeviceFormat where
  "format12 =
     \<lparr>photoWidth = 4000, photoHeight = 3000, videoWidth = 1920, videoHeight = 1080,
      maxFps = 30\<rparr>"

definition format48 :: CameraDeviceFormat where
  "format48 =
     \<lparr>photoWidth = 8000, photoHeight = 6000, videoWidth = 1920, videoHeight = 1080,
      maxFps = 30\<rparr>"

definition format63 :: CameraDeviceFormat where
  "format63 =
     \<lparr>photoWidth = 9000, photoHeight = 7000, videoWidth = 1920, videoHeight = 1080,
      maxFps = 30\<rparr>"

text \<open>
  A logical triple camera and a dedicated wide camera on the back, both reaching 48
  megapixels, and a front camera with a 63 megapixel format.
\<close>

definition multiDevice :: CameraDevice where
  "multiDevice =
     \<lparr>device_id = ''multi'', position = Back,
      physicalDevices = [ultra_wide_angle_camera, wide_angle_camera, telephoto_camera],
      formats = [format48], dev_minZoom = 1 / 2, dev_maxZoom = 10, dev_neutralZoom = 1\<rparr>"

definition wideDevice :: CameraDevice where
  "wideDevice =
     \<lparr>device_id = ''wide'', position = Back, physicalDevices = [wide_angle_camera],
      formats = [format12, format48], dev_minZoom = 1, dev_maxZoom = 8,
      dev_neutralZoom = 1\<rparr>"

definition frontDevice :: CameraDevice where
  "frontDevice =
     \<lparr>device_id = ''front'', position = Front, physicalDevices = [wide_angle_camera],
      formats = [format63], dev_minZoom = 1, dev_maxZoom = 4, dev_neutralZoom = 1\<rparr>"

definition exampleDevices :: "CameraDevice list" where
  "exampleDevices = [multiDevice, frontDevice, wideDevice]"

text \<open>A back camera with a telephoto lens whose zoom range ends at twice the neutral zoom.\<close>

definition teleDevice :: CameraDevice where
  "teleDevice =
     \<lparr>device_id = ''tele'', position = Back,
      physicalDevices = [wide_angle_camera, telephoto_camera], formats = [format12],
      dev_minZoom = 1, dev_maxZoom = 2, dev_neutralZoom = 1\<rparr>"

text \<open>A zoom state at factor 2.\<close>

definition exampleZoom :: ZoomState where
  "exampleZoom = \<lparr>zoom = 2, pinchStartZoom = 2, lastZoomReported = 2, currentZoom = 2\<rparr>"

text \<open>
  A portrait screen of 300 by 600 with the focus guide at \<open>(50, 100)\<close>, 200 wide and 100
  high; the preview is then the rectangle at \<open>(0, 100)\<close>, 300 wide and 400 high.
\<close>

definition exampleEnv :: FocusEnv where
  "exampleEnv =
     \<lparr>focusOn = True, focusBoxRect = Some (50, 100, 200, 100), isLandscape = False,
      cameraViewWidth = 300, cameraViewHeight = 600, windowWidth = 300, windowHeight = 600\<rparr>"

section \<open>Helper lemmas on the lot state\<close>

lemma list_all_update:
  "list_all P xs \<Longrightarrow> P v \<Longrightarrow> list_all P (xs[i := v])"
  by (cases "i < length xs") (auto simp: list_all_length nth_list_update)

lemma coverValid_fileCapture:
  assumes "list_all coverValid prev"
  shows "list_all coverValid (fileCapture i m isExtra newPhoto prev)"
proof (cases "i < length prev")
  case False
  then show ?thesis using assms by (simp add: fileCapture_def)
next
  case True
  then have v: "coverValid (prev ! i)"
    using assms by (simp add: list_all_length)
  have e: "coverValid ((prev ! i)\<lparr>extraFiles := newPhoto # extraFiles (prev ! i)\<rparr>)"
    using v by (simp add: coverValid_def)
  have f: "coverValid ((prev ! i)\<lparr>mode := Some m, files := newPhoto # files (prev ! i)\<rparr>)"
    using v by (auto simp: coverValid_def split: if_splits)
  show ?thesis
    using True assms e f by (simp add: fileCapture_def Let_def list_all_update)
qed

lemma coverValid_handleCapture:
  "list_all coverValid prev \<Longrightarrow>
   list_all coverValid (snd (handleCapture cam busy lots taken i m isExtra prev))"
  by (simp add: handleCapture_def coverValid_fileCapture split: option.splits)

lemma coverValid_reclamp:
  "coverValid (lot\<lparr>files := fs, coverIndex := max 0 (min (int (length fs) - 1) c)\<rparr>)"
  by (cases fs) (auto simp: coverValid_def)

lemma coverValid_removeImage:
  "list_all coverValid prev \<Longrightarrow> removeImage lotIdx imgIdx prev = Some lots' \<Longrightarrow>
   list_all coverValid lots'"
  by (auto simp: removeImage_def Let_def coverValid_reclamp list_all_update split: if_splits)

lemma coverValid_applyOp:
  "list_all coverValid lots \<Longrightarrow> list_all coverValid (applyOp lots op)"
  by (cases op) (auto simp: coverValid_handleCapture coverValid_removeImage split: option.splits)

lemma coverValid_applyOps:
  "list_all coverValid lots \<Longrightarrow> list_all coverValid (applyOps lots ops)"
  unfolding applyOps_def
  by (induction ops arbitrary: lots) (simp_all add: coverValid_applyOp)

lemma filterOutIndex_last_of_three: "filterOutIndex 2 [a, b, c] = [a, b]"
  by (simp add: filterOutIndex_def upt_rec)

section \<open>The mode gate of a capture\<close>



section \<open>The cover index\<close>

text \<open>
  Claim C4. Start from a freshly created lot and apply any finite sequence of captures
  (main or extra, each requested on any earlier or other lots) and removals of a main
  image. Afterwards every lot has a valid cover
  index: it is \<open>0\<close> when the lot has no main image and an index of the main-image list
  otherwise. Moreover, removing the main image at index 2 of a lot with three main images
  and cover index 2 leaves the cover index at 1 (and the first two images).
\<close>

theorem cover_index_invariant:
  "list_all coverValid (applyOps [createNewLot ident] ops)
   \<and> (\<forall>lot lots'. length (files lot) = 3 \<and> coverIndex lot = 2
          \<and> removeImage 0 2 [lot] = Some lots'
        \<longrightarrow> coverIndex (lots' ! 0) = 1 \<and> files (lots' ! 0) = butlast (files lot))"
proof -
  have fresh: "list_all coverValid [createNewLot ident]"
    by (simp add: coverValid_def createNewLot_def)
  have d: "coverIndex (lots' ! 0) = 1 \<and> files (lots' ! 0) = butlast (files lot)"
    if h: "length (files lot) = 3" "coverIndex lot = 2" "removeImage 0 2 [lot] = Some lots'"
    for lot lots'
  proof -
    obtain a b c where abc: "files lot = [a, b, c]"
      using h(1) by (auto simp: length_Suc_conv eval_nat_numeral)
    show ?thesis
      using h(2,3) abc by (auto simp: removeImage_def Let_def filterOutIndex_last_of_three)
  qed
  show ?thesis using coverValid_applyOps [OF fresh] d by blast
qed

text \<open>
  Witness for C4: two main captures, both requested on the fresh lot, and one removal,
  and the removal at index 2 on a lot with three main images and cover index 2.
\<close>

theorem cover_index_invariant_witness:
  "list_all coverValid
     (applyOps [createNewLot ''lot-1'']
        [OpCapture [createNewLot ''lot-1''] 0 single_lot False (examplePhoto ''a''),
         OpCapture [createNewLot ''lot-1''] 0 per_item False (examplePhoto ''b''),
         OpRemoveImage 0 1])
   \<and> removeImage 0 2
        [bundleLot\<lparr>files := [examplePhoto ''c'', examplePhoto ''b'', examplePhoto ''a''],
                    coverIndex := 2\<rparr>]
      = Some [bundleLot\<lparr>files := [examplePhoto ''c'', examplePhoto ''b''], coverIndex := 1\<rparr>]"
proof -
  have r: "removeImage 0 2
        [bundleLot\<lparr>files := [examplePhoto ''c'', examplePhoto ''b'', examplePhoto ''a''],
                    coverIndex := 2\<rparr>]
      = Some [bundleLot\<lparr>files := [examplePhoto ''c'', examplePhoto ''b''], coverIndex := 1\<rparr>]"
    by (simp add: removeImage_def Let_def filterOutIndex_last_of_three)
  show ?thesis
    using r cover_index_invariant [where ident = "''lot-1''" and ops =
        "[OpCapture [createNewLot ''lot-1''] 0 single_lot False (examplePhoto ''a''),
          OpCapture [createNewLot ''lot-1''] 0 per_item False (examplePhoto ''b''),
          OpRemoveImage 0 1]"]
    by simp
qed

section \<open>Choosing the cover image\<close>

text \<open>
  Counterexample for C6 (the cover index is clamped into the main-image list, and nothing
  happens on an empty list): on the lot with two main images, \<open>setCoverImage\<close> with image
  index 5 stores 5, which is not an index of the list; on a fresh lot, which has no main
  image, \<open>setCoverImage\<close> with image index 3 stores 3 and so changes the lot.
\<close>

theorem setCoverImage_not_clamped:
  "setCoverImage 0 5 [bundleLot] = Stored [bundleLot\<lparr>coverIndex := 5\<rparr>]
   \<and> length (files bundleLot) = 2
   \<and> \<not> (0 \<le> coverIndex (bundleLot\<lparr>coverIndex := 5\<rparr>)
        \<and> coverIndex (bundleLot\<lparr>coverIndex := 5\<rparr>) \<le> int (length (files bundleLot)) - 1)
   \<and> setCoverImage 0 3 [createNewLot ''lot-1'']
       = Stored [(createNewLot ''lot-1'')\<lparr>coverIndex := 3\<rparr>]
   \<and> files (createNewLot ''lot-1'') = []
   \<and> (createNewLot ''lot-1'')\<lparr>coverIndex := 3\<rparr> \<noteq> createNewLot ''lot-1''"
  by (simp add: setCoverImage_def bundleLot_def createNewLot_def)

text \<open>
  Claim C6 as amended. On an existing lot \<open>setCoverImage\<close> returns the lots in which that
  lot has the given image index as its cover index, as it is, and is otherwise the lot it
  was; the other lots and the number of lots are as they were. The stored cover index is
  valid exactly when the given index is: an index of the main-image list, or \<open>0\<close> for an
  empty list.
\<close>

theorem setCoverImage_stores_index:
  assumes "lotIdx < length prev"
  shows "\<exists>lots'. setCoverImage lotIdx imgIdx prev = Stored lots'
     \<and> length lots' = length prev
     \<and> lots' ! lotIdx = (prev ! lotIdx)\<lparr>coverIndex := imgIdx\<rparr>
     \<and> coverIndex (lots' ! lotIdx) = imgIdx
     \<and> files (lots' ! lotIdx) = files (prev ! lotIdx)
     \<and> (\<forall>j. j \<noteq> lotIdx \<longrightarrow> lots' ! j = prev ! j)
     \<and> (coverValid (lots' ! lotIdx) \<longleftrightarrow>
          (if files (prev ! lotIdx) = [] then imgIdx = 0
           else 0 \<le> imgIdx \<and> imgIdx < int (length (files (prev ! lotIdx)))))"
  using assms by (simp add: setCoverImage_def coverValid_def)

text \<open>
  Witness for the amended C6: on the lot with two main images, image index 1 is stored
  and valid, and image index 5 is stored and not valid.
\<close>

theorem setCoverImage_stores_index_witness:
  "(0::nat) < length [bundleLot]
   \<and> setCoverImage 0 1 [bundleLot] = Stored [bundleLot\<lparr>coverIndex := 1\<rparr>]
   \<and> coverValid (bundleLot\<lparr>coverIndex := 1\<rparr>)
   \<and> setCoverImage 0 5 [bundleLot] = Stored [bundleLot\<lparr>coverIndex := 5\<rparr>]
   \<and> \<not> coverValid (bundleLot\<lparr>coverIndex := 5\<rparr>)"
proof -
  have h: "(0::nat) < length [bundleLot]" by simp
  have f: "files bundleLot = [examplePhoto ''b'', examplePhoto ''a'']"
    by (simp add: bundleLot_def)
  have a: "setCoverImage 0 1 [bundleLot] = Stored [bundleLot\<lparr>coverIndex := 1\<rparr>]
      \<and> coverValid (bundleLot\<lparr>coverIndex := 1\<rparr>)"
    using setCoverImage_stores_index [OF h, where imgIdx = 1] f
    by (auto simp: setCoverImage_def)
  have b: "setCoverImage 0 5 [bundleLot] = Stored [bundleLot\<lparr>coverIndex := 5\<rparr>]
      \<and> \<not> coverValid (bundleLot\<lparr>coverIndex := 5\<rparr>)"
    using setCoverImage_stores_index [OF h, where imgIdx = 5] f
    by (auto simp: setCoverImage_def)
  show ?thesis using h a b by blast
qed

section \<open>The frame of a capture\<close>

text \<open>
  Claim C9. Filing a capture keeps the number of lots and changes no lot other than the
  one at \<open>activeLotIdx\<close>; when there is no lot at \<open>activeLotIdx\<close> the lots are returned as
  they were, so the photo is stored nowhere. The same holds for \<open>handleCapture\<close> as a
  whole, whatever its outcome and whatever lots it saw at the request.
\<close>

theorem capture_frame:
  "length (fileCapture activeLotIdx m isExtra newPhoto prev) = length prev
   \<and> (\<forall>j. j \<noteq> activeLotIdx \<longrightarrow>
          fileCapture activeLotIdx m isExtra newPhoto prev ! j = prev ! j)
   \<and> (\<not> activeLotIdx < length prev \<longrightarrow>
          fileCapture activeLotIdx m isExtra newPhoto prev = prev)
   \<and> (\<forall>j. j \<noteq> activeLotIdx \<longrightarrow>
          snd (handleCapture cam busy lots taken activeLotIdx m isExtra prev) ! j = prev ! j)
   \<and> (\<not> activeLotIdx < length prev \<longrightarrow>
          snd (handleCapture cam busy lots taken activeLotIdx m isExtra prev) = prev)"
  by (auto simp: fileCapture_def handleCapture_def Let_def split: option.splits)

text \<open>
  Witness for C9: with two lots and the second one active, the first lot is untouched;
  with index 2 active, both lots are returned as they were.
\<close>

theorem capture_frame_witness:
  "fileCapture 1 per_item False (examplePhoto ''c'') [bundleLot, createNewLot ''lot-2''] ! 0
     = bundleLot
   \<and> fileCapture 2 per_item False (examplePhoto ''c'') [bundleLot, createNewLot ''lot-2'']
     = [bundleLot, createNewLot ''lot-2'']"
  using capture_frame [where activeLotIdx = 1 and m = per_item and isExtra = False
      and newPhoto = "examplePhoto ''c''" and prev = "[bundleLot, createNewLot ''lot-2'']"]
    capture_frame [where activeLotIdx = 2 and m = per_item and isExtra = False
      and newPhoto = "examplePhoto ''c''" and prev = "[bundleLot, createNewLot ''lot-2'']"]
  by simp

section \<open>The resolution preset\<close>

text \<open>
  Claim C10. \<open>applyResolutionPreset\<close> does not depend on its argument: for every preset
  and every state it yields the state with preset Max and max-resolution mode on. The
  effect that runs when the screen becomes visible yields the same state, so a preset
  other than Max in the state does not outlast the opening of the screen.
\<close>

theorem applyResolutionPreset_ignores_argument:
  "applyResolutionPreset preset s
     = \<lparr>st_resolutionPreset = PresetMax, st_maxResolutionMode = True\<rparr>
   \<and> visibleEffect True s
     = \<lparr>st_resolutionPreset = PresetMax, st_maxResolutionMode = True\<rparr>
   \<and> st_resolutionPreset (visibleEffect True (s\<lparr>st_resolutionPreset := preset\<rparr>)) = PresetMax"
  by (cases s) (simp add: applyResolutionPreset_def visibleEffect_def)

section \<open>Helper lemmas on the retry\<close>

lemma emptyPolls_before:
  "n < 10 \<Longrightarrow> emptyPolls n =
     \<lparr>cameraInitAttempts = n, cameraInitTimedOut = False, intervalRunning = True,
      elapsedMs = retryIntervalMs * n\<rparr>"
proof (induction n)
  case 0
  show ?case by (simp add: cameraInitOnOpen_def retryEffect_def)
next
  case (Suc n)
  then have "emptyPolls n = \<lparr>cameraInitAttempts = n, cameraInitTimedOut = False,
      intervalRunning = True, elapsedMs = retryIntervalMs * n\<rparr>" by simp
  then show ?case using Suc.prems
    by (simp add: pollOnce_def intervalTick_def retryCleanup_def retryEffect_def Let_def)
qed

lemma emptyPolls_after:
  "10 \<le> n \<Longrightarrow> emptyPolls n =
     \<lparr>cameraInitAttempts = 10, cameraInitTimedOut = True, intervalRunning = False,
      elapsedMs = retryIntervalMs * 10\<rparr>"
proof (induction n)
  case 0
  then show ?case by simp
next
  case (Suc n)
  show ?case
  proof (cases "n = 9")
    case True
    have nine: "(9::nat) < 10" by simp
    have "emptyPolls (Suc 9) = pollOnce True True False (emptyPolls 9)"
      by (rule emptyPolls.simps(2))
    then have "emptyPolls (Suc 9) =
       \<lparr>cameraInitAttempts = 10, cameraInitTimedOut = True, intervalRunning = False,
        elapsedMs = retryIntervalMs * 10\<rparr>"
      unfolding emptyPolls_before [OF nine]
      by (simp add: pollOnce_def intervalTick_def retryCleanup_def retryEffect_def Let_def)
    then show ?thesis using True by simp
  next
    case False
    then have "10 \<le> n" using Suc.prems by simp
    from Suc.IH [OF this] show ?thesis
      by (simp add: pollOnce_def)
  qed
qed

section \<open>The retry budget of the camera initialisation\<close>

text \<open>
  Claim C8. While the screen is visible, the permission is granted and no device shows
  up, the interval fires every 500 ms and each firing counts one attempt. After \<open>n\<close> such
  polls the time-out is raised exactly when \<open>n\<close> has reached 10, the interval is running
  exactly when \<open>n\<close> is below 10, and the time spent is 500 ms for each of the at most 10
  attempts. So after 4 polls the time-out is not raised, after 10 polls it is raised and
  the interval is cleared, and later polls change nothing.
\<close>

theorem camera_init_retry_budget:
  "(cameraInitTimedOut (emptyPolls n) \<longleftrightarrow> 10 \<le> n)
   \<and> (intervalRunning (emptyPolls n) \<longleftrightarrow> n < 10)
   \<and> cameraInitAttempts (emptyPolls n) = min n 10
   \<and> elapsedMs (emptyPolls n) = 500 * min n 10
   \<and> \<not> cameraInitTimedOut (emptyPolls 4)
   \<and> cameraInitTimedOut (emptyPolls 10) \<and> \<not> intervalRunning (emptyPolls 10)
   \<and> emptyPolls (10 + n) = emptyPolls 10"
proof (cases "n < 10")
  case True
  have four: "(4::nat) < 10" by simp
  show ?thesis
    using True emptyPolls_before [OF True] emptyPolls_before [OF four]
      emptyPolls_after [of 10] emptyPolls_after [of "10 + n"]
    by (simp add: retryIntervalMs_def)
next
  case False
  then have "10 \<le> n" by simp
  have four: "(4::nat) < 10" by simp
  show ?thesis
    using \<open>10 \<le> n\<close> emptyPolls_after [OF \<open>10 \<le> n\<close>] emptyPolls_before [OF four]
      emptyPolls_after [of 10] emptyPolls_after [of "10 + n"]
    by (simp add: retryIntervalMs_def)
qed

text \<open>Witness for C8: the states after 4 and after 10 polls without a device.\<close>

theorem camera_init_retry_budget_witness:
  "emptyPolls 4 =
     \<lparr>cameraInitAttempts = 4, cameraInitTimedOut = False, intervalRunning = True,
      elapsedMs = 2000\<rparr>
   \<and> emptyPolls 10 =
     \<lparr>cameraInitAttempts = 10, cameraInitTimedOut = True, intervalRunning = False,
      elapsedMs = 5000\<rparr>
   \<and> emptyPolls 13 = emptyPolls 10"
proof -
  have four: "(4::nat) < 10" and ten: "(10::nat) \<le> 10" by simp_all
  show ?thesis
    using camera_init_retry_budget [of 3] emptyPolls_before [OF four]
      emptyPolls_after [OF ten]
    by (simp add: retryIntervalMs_def)
qed

section \<open>Helper lemmas on the zoom\<close>

lemma interpolateSegment_between:
  "min lo ro \<le> interpolateSegment x li ri lo ro
     \<and> interpolateSegment x li ri lo ro \<le> max lo ro"
  by (auto simp: interpolateSegment_def Let_def split: if_splits)

lemma interpolateClamp_between:
  assumes "o0 \<le> o1" "o1 \<le> o2"
  shows "o0 \<le> interpolateClamp x (i0, i1, i2) (o0, o1, o2)
       \<and> interpolateClamp x (i0, i1, i2) (o0, o1, o2) \<le> o2"
  using assms interpolateSegment_between [of o0 o1 x i0 i1]
    interpolateSegment_between [of o1 o2 x i1 i2]
  by (auto simp: interpolateClamp_def)

lemma gestureScale_values:
  "interpolateClamp 1 (1 - 1 / SCALE_FULL_ZOOM, 1, SCALE_FULL_ZOOM) (- 1, 0, 1) = 0"
  "3 \<le> e \<Longrightarrow> interpolateClamp e (1 - 1 / SCALE_FULL_ZOOM, 1, SCALE_FULL_ZOOM) (- 1, 0, 1) = 1"
  "e \<le> 2 / 3 \<Longrightarrow>
     interpolateClamp e (1 - 1 / SCALE_FULL_ZOOM, 1, SCALE_FULL_ZOOM) (- 1, 0, 1) = - 1"
  by (auto simp: interpolateClamp_def interpolateSegment_def SCALE_FULL_ZOOM_def Let_def
      field_simps)

lemma zoomMap_values:
  "interpolateClamp 0 (- 1, 0, 1) (lo, a, hi) = a"
  "interpolateClamp 1 (- 1, 0, 1) (lo, a, hi) = hi"
  "interpolateClamp (- 1) (- 1, 0, 1) (lo, a, hi) = lo"
  by (auto simp: interpolateClamp_def interpolateSegment_def Let_def)

section \<open>The zoom range\<close>

text \<open>
  Claim C7. Let the range be the one the component derives from the active device,
  \<open>minZoom\<close> to \<open>maxZoom\<close>. When the pinch anchor lies in the range, the zoom factor that a
  pinch update stores lies in the range, for every scale of the gesture; the anchor is
  the zoom factor at the start of the gesture, so a zoom factor in the range stays in the
  range through a gesture. For a device whose least zoom is not above its neutral zoom,
  the result of a pinch update also lies between the device's own least and greatest zoom
  (in max-resolution mode the component's range starts at the neutral zoom). A pinch
  update changes the zoom factor only; it stores the anchor at scale 1, the greatest zoom
  from scale 3 on and the least zoom up to scale 2/3. \<open>setZoomLevel\<close> (a preset press)
  stores the requested factor clamped into the range, \<open>max minZoom (min level maxZoom)\<close>,
  as the zoom factor, the pinch anchor and the reported zoom: the requested factor itself
  when it lies in the range, and for a non-empty range the greatest zoom for a request
  above it and the least zoom for a request below it, so the stored factor lies in the
  range.
\<close>

theorem zoom_stays_in_range:
  "(minZoom device maxResolutionMode \<le> pinchStartZoom s
      \<and> pinchStartZoom s \<le> maxZoom device \<longrightarrow>
      minZoom device maxResolutionMode
        \<le> zoom (pinchUpdate (minZoom device maxResolutionMode) (maxZoom device) eventScale s)
      \<and> zoom (pinchUpdate (minZoom device maxResolutionMode) (maxZoom device) eventScale s)
        \<le> maxZoom device)
   \<and> (minZoom device maxResolutionMode \<le> maxZoom device \<longrightarrow>
      minZoom device maxResolutionMode
        \<le> zoom (setZoomLevel (minZoom device maxResolutionMode) (maxZoom device) level s)
      \<and> zoom (setZoomLevel (minZoom device maxResolutionMode) (maxZoom device) level s)
        \<le> maxZoom device
      \<and> currentZoom (setZoomLevel (minZoom device maxResolutionMode) (maxZoom device) level s)
        = zoom (setZoomLevel (minZoom device maxResolutionMode) (maxZoom device) level s)
      \<and> pinchStartZoom (setZoomLevel (minZoom device maxResolutionMode) (maxZoom device) level s)
        = zoom (setZoomLevel (minZoom device maxResolutionMode) (maxZoom device) level s))
   \<and> (minZoom device maxResolutionMode \<le> zoom s \<and> zoom s \<le> maxZoom device \<longrightarrow>
      minZoom device maxResolutionMode
        \<le> zoom (pinchUpdate (minZoom device maxResolutionMode) (maxZoom device) eventScale
                  (pinchBegin s))
      \<and> zoom (pinchUpdate (minZoom device maxResolutionMode) (maxZoom device) eventScale
                  (pinchBegin s))
        \<le> maxZoom device)
   \<and> (\<forall>d. device = Some d \<and> dev_minZoom d \<le> dev_neutralZoom d
          \<and> minZoom device maxResolutionMode \<le> pinchStartZoom s
          \<and> pinchStartZoom s \<le> dev_maxZoom d \<longrightarrow>
      dev_minZoom d
        \<le> zoom (pinchUpdate (minZoom device maxResolutionMode) (maxZoom device) eventScale s)
      \<and> zoom (pinchUpdate (minZoom device maxResolutionMode) (maxZoom device) eventScale s)
        \<le> dev_maxZoom d)
   \<and> setZoomLevel (minZoom device maxResolutionMode) (maxZoom device) level s
       = \<lparr>zoom = max (minZoom device maxResolutionMode) (min level (maxZoom device)),
          pinchStartZoom = max (minZoom device maxResolutionMode) (min level (maxZoom device)),
          lastZoomReported = max (minZoom device maxResolutionMode) (min level (maxZoom device)),
          currentZoom = max (minZoom device maxResolutionMode) (min level (maxZoom device))\<rparr>
   \<and> (minZoom device maxResolutionMode \<le> level \<and> level \<le> maxZoom device \<longrightarrow>
        zoom (setZoomLevel (minZoom device maxResolutionMode) (maxZoom device) level s) = level)
   \<and> (minZoom device maxResolutionMode \<le> maxZoom device \<and> maxZoom device \<le> level \<longrightarrow>
        zoom (setZoomLevel (minZoom device maxResolutionMode) (maxZoom device) level s)
          = maxZoom device)
   \<and> (minZoom device maxResolutionMode \<le> maxZoom device
        \<and> level \<le> minZoom device maxResolutionMode \<longrightarrow>
        zoom (setZoomLevel (minZoom device maxResolutionMode) (maxZoom device) level s)
          = minZoom device maxResolutionMode)
   \<and> pinchUpdate (minZoom device maxResolutionMode) (maxZoom device) 1 s
       = s\<lparr>zoom := pinchStartZoom s\<rparr>
   \<and> (3 \<le> eventScale \<longrightarrow>
        pinchUpdate (minZoom device maxResolutionMode) (maxZoom device) eventScale s
          = s\<lparr>zoom := maxZoom device\<rparr>)
   \<and> (eventScale \<le> 2 / 3 \<longrightarrow>
        pinchUpdate (minZoom device maxResolutionMode) (maxZoom device) eventScale s
          = s\<lparr>zoom := minZoom device maxResolutionMode\<rparr>)"
proof -
  have p: "lo \<le> zoom (pinchUpdate lo hi eventScale s)
      \<and> zoom (pinchUpdate lo hi eventScale s) \<le> hi"
    if "lo \<le> pinchStartZoom s" "pinchStartZoom s \<le> hi" for lo hi
    using interpolateClamp_between [OF that] by (simp add: pinchUpdate_def Let_def)
  have b: "lo \<le> zoom (pinchUpdate lo hi eventScale (pinchBegin s))
      \<and> zoom (pinchUpdate lo hi eventScale (pinchBegin s)) \<le> hi"
    if "lo \<le> zoom s" "zoom s \<le> hi" for lo hi
    using interpolateClamp_between [OF that]
    by (simp add: pinchUpdate_def pinchBegin_def Let_def)
  have e: "setZoomLevel lo hi level s
       = \<lparr>zoom = max lo (min level hi), pinchStartZoom = max lo (min level hi),
          lastZoomReported = max lo (min level hi), currentZoom = max lo (min level hi)\<rparr>"
    for lo hi
    by (cases s) (simp add: setZoomLevel_def Let_def)
  have q: "lo \<le> zoom (setZoomLevel lo hi level s) \<and> zoom (setZoomLevel lo hi level s) \<le> hi
      \<and> currentZoom (setZoomLevel lo hi level s) = zoom (setZoomLevel lo hi level s)
      \<and> pinchStartZoom (setZoomLevel lo hi level s) = zoom (setZoomLevel lo hi level s)"
    if "lo \<le> hi" for lo hi
    using that by (simp add: e)
  have c: "(lo \<le> level \<and> level \<le> hi \<longrightarrow> zoom (setZoomLevel lo hi level s) = level)
      \<and> (lo \<le> hi \<and> hi \<le> level \<longrightarrow> zoom (setZoomLevel lo hi level s) = hi)
      \<and> (lo \<le> hi \<and> level \<le> lo \<longrightarrow> zoom (setZoomLevel lo hi level s) = lo)" for lo hi
    by (auto simp: e)
  have g: "pinchUpdate lo hi 1 s = s\<lparr>zoom := pinchStartZoom s\<rparr>
      \<and> (3 \<le> eventScale \<longrightarrow> pinchUpdate lo hi eventScale s = s\<lparr>zoom := hi\<rparr>)
      \<and> (eventScale \<le> 2 / 3 \<longrightarrow> pinchUpdate lo hi eventScale s = s\<lparr>zoom := lo\<rparr>)" for lo hi
    by (simp add: pinchUpdate_def Let_def gestureScale_values zoomMap_values)
  have m: "dev_minZoom d \<le> minZoom (Some d) maxResolutionMode" "maxZoom (Some d) = dev_maxZoom d"
    if "dev_minZoom d \<le> dev_neutralZoom d" for d
    using that by (simp_all add: minZoom_def maxZoom_def)
  have r: "dev_minZoom d
        \<le> zoom (pinchUpdate (minZoom device maxResolutionMode) (maxZoom device) eventScale s)
      \<and> zoom (pinchUpdate (minZoom device maxResolutionMode) (maxZoom device) eventScale s)
        \<le> dev_maxZoom d"
    if "device = Some d" "dev_minZoom d \<le> dev_neutralZoom d"
      "minZoom device maxResolutionMode \<le> pinchStartZoom s"
      "pinchStartZoom s \<le> dev_maxZoom d" for d
    using p [of "minZoom device maxResolutionMode" "maxZoom device"] m [OF that(2)] that
    by simp
  show ?thesis
    using p q b r e c g by blast
qed

text \<open>
  Witness for C7, on the dedicated wide camera (range 1 to 8) with the anchor at 2: a
  pinch of scale 2 gives 5, a pinch of scale 10 stops at 8, a pinch of scale 0 stops
  at 1, the preset factor 15 is clamped to 8 and the preset factor 3 is stored as 3.
\<close>

theorem zoom_stays_in_range_witness:
  "minZoom (Some wideDevice) True = 1 \<and> maxZoom (Some wideDevice) = 8
   \<and> pinchStartZoom exampleZoom = 2
   \<and> zoom (pinchUpdate 1 8 2 exampleZoom) = 5
   \<and> zoom (pinchUpdate 1 8 10 exampleZoom) = 8
   \<and> zoom (pinchUpdate 1 8 0 exampleZoom) = 1
   \<and> zoom (pinchUpdate 1 8 1 exampleZoom) = 2
   \<and> zoom (setZoomLevel 1 8 15 exampleZoom) = 8
   \<and> zoom (setZoomLevel 1 8 3 exampleZoom) = 3
   \<and> zoom (setZoomLevel 1 8 (1 / 2) exampleZoom) = 1"
proof -
  have r: "minZoom (Some wideDevice) True = 1" "maxZoom (Some wideDevice) = 8"
    by (simp_all add: minZoom_def maxZoom_def wideDevice_def)
  have a: "pinchStartZoom exampleZoom = 2"
    by (simp add: exampleZoom_def)
  have u: "zoom (pinchUpdate 1 8 2 exampleZoom) = 5"
    by (simp add: pinchUpdate_def interpolateClamp_def interpolateSegment_def
        SCALE_FULL_ZOOM_def exampleZoom_def Let_def)
  have v: "zoom (pinchUpdate 1 8 10 exampleZoom) = 8"
    "zoom (pinchUpdate 1 8 0 exampleZoom) = 1"
    "zoom (pinchUpdate 1 8 1 exampleZoom) = 2"
    using zoom_stays_in_range [where device = "Some wideDevice" and maxResolutionMode = True
        and s = exampleZoom and eventScale = 10 and level = 15]
      zoom_stays_in_range [where device = "Some wideDevice" and maxResolutionMode = True
        and s = exampleZoom and eventScale = 0 and level = 15] r a
    by simp_all
  have l: "zoom (setZoomLevel 1 8 15 exampleZoom) = 8"
    "zoom (setZoomLevel 1 8 3 exampleZoom) = 3"
    "zoom (setZoomLevel 1 8 (1 / 2) exampleZoom) = 1"
    using zoom_stays_in_range [where device = "Some wideDevice" and maxResolutionMode = True
        and s = exampleZoom and eventScale = 1 and level = 15]
      zoom_stays_in_range [where device = "Some wideDevice" and maxResolutionMode = True
        and s = exampleZoom and eventScale = 1 and level = 3]
      zoom_stays_in_range [where device = "Some wideDevice" and maxResolutionMode = True
        and s = exampleZoom and eventScale = 1 and level = "1 / 2"] r
    by simp_all
  show ?thesis using r a u v l by simp
qed

section \<open>The zoom presets\<close>

text \<open>
  Counterexample for C5 (no two presets have the same factor): for the back camera with a
  telephoto lens, neutral zoom 1 and greatest zoom 2, in max-resolution mode, the presets
  are 1x at 1, 2x at 2 and 3x at 2; the 3x entry is \<open>min (3 * neutral) maxZoom\<close> and
  repeats the factor of 2x, so the two are equal within every tolerance. All the values
  are small integers, on which the arithmetic of doubles is exact.
\<close>

theorem zoomPresets_repeated_factor:
  "zoomPresets (\<lambda>x. x) (Some teleDevice) True = [(''1x'', 1), (''2x'', 2), (''3x'', 2)]
   \<and> \<not> distinct (map snd (zoomPresets (\<lambda>x. x) (Some teleDevice) True))
   \<and> nearPairs 0 (zoomPresets (\<lambda>x. x) (Some teleDevice) True)
       = [((''2x'', 2), (''3x'', 2))]"
  by (simp add: zoomPresets_def nearPairs_def teleDevice_def minZoom_def maxZoom_def
      neutralZoom_def includesPhysical_def Let_def)

section \<open>Helper lemma on rounding\<close>

lemma rounded_bounds:
  assumes "roundsWithin u rnd x" and "u \<le> 1 / 16" and "0 < x"
  shows "x - x / 16 \<le> rnd x \<and> rnd x \<le> x + x / 16"
proof -
  have "u * x \<le> (1 / 16) * x"
    using mult_right_mono [of u "1 / 16" x] assms(2,3) by simp
  moreover have "\<bar>rnd x - x\<bar> \<le> u * x"
    using assms(1,3) by (simp add: roundsWithin_def)
  ultimately have "\<bar>rnd x - x\<bar> \<le> x / 16"
    by simp
  then show ?thesis by linarith
qed

section \<open>The zoom presets within a tolerance\<close>

text \<open>
  Claim C5 as amended. Take max-resolution mode, which the component never leaves, a
  device with a positive neutral zoom, products rounded with a relative error of at most
  1/16 (doubles have \<open>2 ^ -53\<close>) and a tolerance of at most half the neutral zoom. Then the
  pairs of presets whose factors are equal within the tolerance all contain the 3x entry
  of a device that has a telephoto lens and a greatest zoom below three times the
  neutral zoom, where the factor of the 3x entry is the greatest zoom. They are exactly:
  1x with 3x when the greatest zoom is within the tolerance of the neutral zoom; 2x with
  3x when the greatest zoom is at least the factor of 2x, the rounded double of the
  neutral zoom, and within the tolerance of it. For every other device no two presets
  have factors equal within the tolerance.
\<close>

theorem zoomPresets_near_pairs:
  assumes "0 < neutralZoom device"
    and "u \<le> 1 / 16"
    and "roundsWithin u rnd (neutralZoom device * 2)"
    and "roundsWithin u rnd (neutralZoom device * 3)"
    and "roundsWithin u rnd (neutralZoom device * 5)"
    and "tol \<le> neutralZoom device / 2"
  shows "nearPairs tol (zoomPresets rnd device True)
     = (if includesPhysical device telephoto_camera
           \<and> maxZoom device < rnd (neutralZoom device * 3)
        then (if \<bar>neutralZoom device - maxZoom device\<bar> \<le> tol
              then [((''1x'', neutralZoom device), (''3x'', maxZoom device))] else [])
           @ (if rnd (neutralZoom device * 2) \<le> maxZoom device
                 \<and> \<bar>rnd (neutralZoom device * 2) - maxZoom device\<bar> \<le> tol
              then [((''2x'', rnd (neutralZoom device * 2)), (''3x'', maxZoom device))]
              else [])
        else [])"
proof -
  define n where "n = neutralZoom device"
  define M where "M = maxZoom device"
  define a where "a = rnd (n * 2)"
  define b where "b = rnd (n * 3)"
  define c where "c = rnd (n * 5)"
  have npos: "0 < n" using assms(1) by (simp add: n_def)
  have ab: "n * 2 - n * 2 / 16 \<le> a" "a \<le> n * 2 + n * 2 / 16"
    using rounded_bounds [of u rnd "n * 2"] assms(2,3) npos by (simp_all add: a_def n_def)
  have bb: "n * 3 - n * 3 / 16 \<le> b" "b \<le> n * 3 + n * 3 / 16"
    using rounded_bounds [of u rnd "n * 3"] assms(2,4) npos by (simp_all add: b_def n_def)
  have cb: "n * 5 - n * 5 / 16 \<le> c" "c \<le> n * 5 + n * 5 / 16"
    using rounded_bounds [of u rnd "n * 5"] assms(2,5) npos by (simp_all add: c_def n_def)
  have tol: "tol \<le> n / 2" using assms(6) by (simp add: n_def)
  have zp: "zoomPresets rnd device True
      = [(''1x'', n)] @ (if M \<ge> a then [(''2x'', a)] else [])
        @ (if includesPhysical device telephoto_camera \<or> M \<ge> b then [(''3x'', min b M)] else [])
        @ (if M \<ge> c then [(''5x'', c)] else [])"
    by (simp add: zoomPresets_def Let_def n_def M_def a_def b_def c_def)
  have "nearPairs tol (zoomPresets rnd device True)
     = (if includesPhysical device telephoto_camera \<and> M < b
        then (if \<bar>n - M\<bar> \<le> tol then [((''1x'', n), (''3x'', M))] else [])
           @ (if a \<le> M \<and> \<bar>a - M\<bar> \<le> tol then [((''2x'', a), (''3x'', M))] else [])
        else [])"
    unfolding zp nearPairs_def
    using npos ab bb cb tol
    by (auto simp: min_def)
  then show ?thesis unfolding n_def M_def a_def b_def .
qed

text \<open>
  Witness for the amended C5, with exact arithmetic and tolerance 1/1000: the dedicated
  wide camera has the presets at 1, 2, 3 and 5 and no two of them are equal within the
  tolerance; for the telephoto camera with greatest zoom 2 the only such pair is 2x
  with 3x.
\<close>

theorem zoomPresets_near_pairs_witness:
  "0 < neutralZoom (Some wideDevice)
   \<and> roundsWithin 0 (\<lambda>x. x) (neutralZoom (Some wideDevice) * 3)
   \<and> (1 / 1000 :: real) \<le> neutralZoom (Some wideDevice) / 2
   \<and> zoomPresets (\<lambda>x. x) (Some wideDevice) True
       = [(''1x'', 1), (''2x'', 2), (''3x'', 3), (''5x'', 5)]
   \<and> nearPairs (1 / 1000) (zoomPresets (\<lambda>x. x) (Some wideDevice) True) = []
   \<and> nearPairs (1 / 1000) (zoomPresets (\<lambda>x. x) (Some teleDevice) True)
       = [((''2x'', 2), (''3x'', 2))]"
proof -
  have w: "neutralZoom (Some wideDevice) = 1" "maxZoom (Some wideDevice) = 8"
    "\<not> includesPhysical (Some wideDevice) telephoto_camera"
    by (simp_all add: neutralZoom_def maxZoom_def includesPhysical_def wideDevice_def)
  have t: "neutralZoom (Some teleDevice) = 1" "maxZoom (Some teleDevice) = 2"
    "includesPhysical (Some teleDevice) telephoto_camera"
    by (simp_all add: neutralZoom_def maxZoom_def includesPhysical_def teleDevice_def)
  have r: "roundsWithin 0 (\<lambda>x. x) y" for y :: real
    by (simp add: roundsWithin_def)
  have z: "zoomPresets (\<lambda>x. x) (Some wideDevice) True
       = [(''1x'', 1), (''2x'', 2), (''3x'', 3), (''5x'', 5)]"
    by (simp add: zoomPresets_def wideDevice_def minZoom_def maxZoom_def neutralZoom_def
        includesPhysical_def Let_def)
  have a: "nearPairs (1 / 1000) (zoomPresets (\<lambda>x. x) (Some wideDevice) True) = []"
    using zoomPresets_near_pairs [where device = "Some wideDevice" and u = 0
        and rnd = "\<lambda>x. x" and tol = "1 / 1000"] w r
    by simp
  have b: "nearPairs (1 / 1000) (zoomPresets (\<lambda>x. x) (Some teleDevice) True)
       = [((''2x'', 2), (''3x'', 2))]"
    using zoomPresets_near_pairs [where device = "Some teleDevice" and u = 0
        and rnd = "\<lambda>x. x" and tol = "1 / 1000"] t r
    by simp
  show ?thesis using w r z a b by simp
qed

section \<open>Helper lemmas on the focus rectangle\<close>

lemma normalizedIntersection_bounds:
  assumes "normalizedIntersection (pl, pt, pw, ph) rect = Some (nx, ny, nw, nh)"
    and "0 < pw" and "0 < ph"
  shows "0 \<le> nx \<and> 0 \<le> ny \<and> 8 / pw \<le> nw \<and> 8 / ph \<le> nh \<and> nx + nw \<le> 1 \<and> ny + nh \<le> 1"
proof -
  obtain rx ry rw rh where rect: "rect = (rx, ry, rw, rh)"
    by (cases rect) auto
  define bl where "bl = max pl rx"
  define bt where "bt = max pt ry"
  define br where "br = min (pl + pw) (rx + rw)"
  define bb where "bb = min (pt + ph) (ry + rh)"
  from assms(1) have w: "8 \<le> br - bl" and h: "8 \<le> bb - bt"
    and nx: "nx = (bl - pl) / pw" and ny: "ny = (bt - pt) / ph"
    and nw: "nw = (br - bl) / pw" and nh: "nh = (bb - bt) / ph"
    by (auto simp: normalizedIntersection_def rect Let_def bl_def bt_def br_def bb_def
        split: if_splits)
  have b1: "pl \<le> bl" "pt \<le> bt" "br \<le> pl + pw" "bb \<le> pt + ph"
    by (simp_all add: bl_def bt_def br_def bb_def)
  have "nx + nw = (br - pl) / pw"
    by (simp add: nx nw diff_divide_distrib)
  moreover have "(br - pl) / pw \<le> 1"
    using b1 assms(2) by (simp add: divide_le_eq)
  moreover have "ny + nh = (bb - pt) / ph"
    by (simp add: ny nh diff_divide_distrib)
  moreover have "(bb - pt) / ph \<le> 1"
    using b1 assms(3) by (simp add: divide_le_eq)
  moreover have "0 \<le> nx" "0 \<le> ny"
    using b1 assms(2,3) by (simp_all add: nx ny)
  moreover have "8 / pw \<le> nw" "8 / ph \<le> nh"
    using w h assms(2,3) by (simp_all add: nw nh divide_right_mono)
  ultimately show ?thesis by simp
qed

section \<open>The normalized focus rectangle\<close>

text \<open>
  Claim C3. \<open>computeNormalizedFocusBox\<close> is a function of the image size and of the values
  it reads from the component (collected in \<open>FocusEnv\<close>), so equal inputs give equal
  results. Whenever it returns a rectangle, the rectangle lies in the unit square
  (\<open>x\<close>, \<open>y\<close>, \<open>x + w\<close> and \<open>y + h\<close> are between 0 and 1) and its width and height are at
  least 0.01. The rectangle is the intersection of the focus guide with the preview,
  normalized to the preview, when the image and the preview have the same orientation,
  and its quarter turn \<open>x' = 1 - (y + h)\<close>, \<open>y' = x\<close>, \<open>w' = h\<close>, \<open>h' = w\<close> when they differ.
\<close>

theorem focus_box_in_unit_square:
  assumes "computeNormalizedFocusBox env imageWidth imageHeight = Some r"
  shows "0 \<le> box_x r \<and> box_x r \<le> 1 \<and> 0 \<le> box_y r \<and> box_y r \<le> 1
     \<and> box_x r + box_w r \<le> 1 \<and> box_y r + box_h r \<le> 1
     \<and> 1 / 100 \<le> box_w r \<and> 1 / 100 \<le> box_h r
     \<and> (\<exists>rect nx ny nw nh.
           focusBoxRect env = Some rect
         \<and> normalizedIntersection (previewGeometry env) rect = Some (nx, ny, nw, nh)
         \<and> r = (if orientationDiffers env imageWidth imageHeight
                then \<lparr>box_x = 1 - (ny + nh), box_y = nx, box_w = nh, box_h = nw\<rparr>
                else \<lparr>box_x = nx, box_y = ny, box_w = nw, box_h = nh\<rparr>))"
proof -
  obtain pl pt pw ph where pg: "previewGeometry env = (pl, pt, pw, ph)"
    by (cases "previewGeometry env") auto
  obtain rect where rect: "focusBoxRect env = Some rect"
    using assms by (cases "focusBoxRect env") (simp_all add: computeNormalizedFocusBox_def)
  have on: "focusOn env"
    using assms by (cases "focusOn env") (simp_all add: computeNormalizedFocusBox_def rect)
  have pos: "0 < pw" "0 < ph"
  proof -
    have "\<not> (pw \<le> 0 \<or> ph \<le> 0)"
    proof
      assume "pw \<le> 0 \<or> ph \<le> 0"
      then show False
        using assms by (simp add: computeNormalizedFocusBox_def rect on pg)
    qed
    then show "0 < pw" "0 < ph" by simp_all
  qed
  obtain nx ny nw nh
    where ni: "normalizedIntersection (pl, pt, pw, ph) rect = Some (nx, ny, nw, nh)"
  proof (cases "normalizedIntersection (pl, pt, pw, ph) rect")
    case None
    then show ?thesis
      using assms pos by (simp add: computeNormalizedFocusBox_def rect on pg)
  next
    case (Some q)
    then show ?thesis using that by (cases q) auto
  qed
  note b = normalizedIntersection_bounds [OF ni pos]
  have nwpos: "0 < nw" "0 < nh"
  proof -
    have "0 < 8 / pw" "0 < 8 / ph" using pos by simp_all
    then show "0 < nw" "0 < nh" using b by linarith+
  qed
  have c: "max 0 (min 1 (1 - (ny + nh))) = 1 - (ny + nh)" "max 0 (min (ny + nh) nh) = nh"
    "max 0 (min 1 nx) = nx" "max 0 (min (1 - nx) nw) = nw"
    "max 0 (min 1 ny) = ny" "max 0 (min (1 - ny) nh) = nh"
    using b nwpos by simp_all
  show ?thesis
  proof (cases "orientationDiffers env imageWidth imageHeight")
    case True
    have r: "r = \<lparr>box_x = 1 - (ny + nh), box_y = nx, box_w = nh, box_h = nw\<rparr>"
      and big: "1 / 100 \<le> nh \<and> 1 / 100 \<le> nw"
      using assms
      by (simp_all add: computeNormalizedFocusBox_def rect pg on pos ni True Let_def c
          split: if_splits)
    show ?thesis using r big b nwpos rect pg ni True by simp
  next
    case False
    have r: "r = \<lparr>box_x = nx, box_y = ny, box_w = nw, box_h = nh\<rparr>"
      and big: "1 / 100 \<le> nh \<and> 1 / 100 \<le> nw"
      using assms
      by (simp_all add: computeNormalizedFocusBox_def rect pg on pos ni False Let_def c
          split: if_splits)
    show ?thesis using r big b nwpos rect pg ni False by simp
  qed
qed

text \<open>
  Witness for C3: the guide of the example screen and a landscape image. The normalized
  intersection is \<open>(1/6, 0, 2/3, 1/4)\<close>; the orientations differ, so the result is its
  quarter turn.
\<close>

theorem focus_box_in_unit_square_witness:
  "computeNormalizedFocusBox exampleEnv 4000 3000
     = Some \<lparr>box_x = 3 / 4, box_y = 1 / 6, box_w = 1 / 4, box_h = 2 / 3\<rparr>
   \<and> orientationDiffers exampleEnv 4000 3000
   \<and> normalizedIntersection (previewGeometry exampleEnv) (50, 100, 200, 100)
     = Some (1 / 6, 0, 2 / 3, 1 / 4)
   \<and> computeNormalizedFocusBox exampleEnv 3000 4000
     = Some \<lparr>box_x = 1 / 6, box_y = 0, box_w = 2 / 3, box_h = 1 / 4\<rparr>"
proof -
  have pg: "previewGeometry exampleEnv = (0, 100, 300, 400)"
    by (simp add: previewGeometry_def portraitPreviewRect_def orElse_def exampleEnv_def
        Let_def)
  have ni: "normalizedIntersection (0, 100, 300, 400) (50, 100, 200, 100)
      = Some (1 / 6, 0, 2 / 3, 1 / 4)"
    by (simp add: normalizedIntersection_def Let_def)
  have od: "orientationDiffers exampleEnv 4000 3000"
    "\<not> orientationDiffers exampleEnv 3000 4000"
    by (simp_all add: orientationDiffers_def pg)
  have fr: "focusBoxRect exampleEnv = Some (50, 100, 200, 100)" "focusOn exampleEnv"
    by (simp_all add: exampleEnv_def)
  have a: "computeNormalizedFocusBox exampleEnv 4000 3000
     = Some \<lparr>box_x = 3 / 4, box_y = 1 / 6, box_w = 1 / 4, box_h = 2 / 3\<rparr>"
    by (simp add: computeNormalizedFocusBox_def fr pg ni od Let_def)
  have b: "computeNormalizedFocusBox exampleEnv 3000 4000
     = Some \<lparr>box_x = 1 / 6, box_y = 0, box_w = 2 / 3, box_h = 1 / 4\<rparr>"
    by (simp add: computeNormalizedFocusBox_def fr pg ni od Let_def)
  show ?thesis
    using focus_box_in_unit_square [OF a] a b od ni pg by simp
qed

section \<open>Helper lemmas on the device and format selection\<close>

lemma firstSortedBy_None: "firstSortedBy key xs = None \<longleftrightarrow> xs = []"
proof -
  have "sort_key key xs = [] \<longleftrightarrow> xs = []"
    by (metis set_sort set_empty)
  then show ?thesis by (auto simp: firstSortedBy_def split: list.splits)
qed

lemma firstSortedBy_Some:
  assumes "firstSortedBy key xs = Some x"
  shows "x \<in> set xs \<and> (\<forall>y \<in> set xs. key x \<le> key y)"
proof -
  from assms obtain ys where ys: "sort_key key xs = x # ys"
    by (auto simp: firstSortedBy_def split: list.splits)
  have "sorted (map key (x # ys))" using sorted_sort_key [of key xs] ys by simp
  then have "\<forall>y \<in> set (x # ys). key x \<le> key y" by auto
  moreover have "set (x # ys) = set xs" using set_sort [of key xs] ys by simp
  ultimately show ?thesis by auto
qed

lemma reduce_step_inv:
  "(case foldl (keepLarger pixelsOf) best fs of
      None \<Rightarrow> best = None \<and> (\<forall>f \<in> set fs. pixelsOf f = 0)
    | Some b \<Rightarrow> (b \<in> set fs \<or> best = Some b) \<and> (\<forall>f \<in> set fs. pixelsOf f \<le> pixelsOf b)
        \<and> (case best of None \<Rightarrow> 0 < pixelsOf b | Some b0 \<Rightarrow> pixelsOf b0 \<le> pixelsOf b))"
proof (induction fs arbitrary: best)
  case Nil
  show ?case by (cases best) simp_all
next
  case (Cons f fs)
  show ?case
    using Cons.IH [of "keepLarger pixelsOf best f"]
    by (cases best) (auto simp: keepLarger_def Let_def split: option.splits if_splits)
qed

lemma reduceMaxPixels_Some:
  assumes "reduceMaxPixels pixelsOf fs = Some b"
  shows "b \<in> set fs \<and> (\<forall>f \<in> set fs. pixelsOf f \<le> pixelsOf b) \<and> 0 < pixelsOf b"
  using reduce_step_inv [where pixelsOf = pixelsOf and best = None and fs = fs] assms
  by (simp add: reduceMaxPixels_def)

lemma reduceMaxPixels_None:
  assumes "reduceMaxPixels pixelsOf fs = None"
  shows "\<forall>f \<in> set fs. pixelsOf f = 0"
  using reduce_step_inv [where pixelsOf = pixelsOf and best = None and fs = fs] assms
  by (simp add: reduceMaxPixels_def)

lemma pickBestPhotoFormat_max_Some:
  assumes "pickBestPhotoFormat False fs PresetMax mp = Some b"
  shows "b \<in> set fs \<and> (\<forall>f \<in> set fs. photoPixels f \<le> photoPixels b) \<and> 0 < photoPixels b"
proof -
  from assms have fs: "firstSortedBy (\<lambda>x. - int (photoPixels x))
      (filter (\<lambda>x. photoPixels x > 0) fs) = Some b"
    by (simp add: pickBestPhotoFormat_def Let_def split: if_splits)
  note h = firstSortedBy_Some [OF fs]
  have pos: "b \<in> set fs" "0 < photoPixels b" using h by simp_all
  have "photoPixels f \<le> photoPixels b" if "f \<in> set fs" for f
  proof (cases "0 < photoPixels f")
    case True
    then have "f \<in> set (filter (\<lambda>x. photoPixels x > 0) fs)" using that by simp
    then have "- int (photoPixels b) \<le> - int (photoPixels f)" using h by blast
    then show ?thesis by simp
  next
    case False
    then show ?thesis by simp
  qed
  then show ?thesis using pos by blast
qed

lemma pickBestPhotoFormat_max_None:
  assumes "pickBestPhotoFormat False fs PresetMax mp = None"
  shows "\<forall>f \<in> set fs. photoPixels f = 0"
proof (cases "fs = []")
  case True
  then show ?thesis by simp
next
  case False
  with assms have "firstSortedBy (\<lambda>x. - int (photoPixels x))
      (filter (\<lambda>x. photoPixels x > 0) fs) = None"
    by (simp add: pickBestPhotoFormat_def Let_def)
  then have "filter (\<lambda>x. photoPixels x > 0) fs = []"
    by (simp add: firstSortedBy_None)
  then show ?thesis by (simp add: filter_empty_conv)
qed

lemma selectedFormat_max_Some:
  assumes "selectedFormat isAndroid videoUseCase PresetMax (Some d) = Some b"
    and "\<not> (isAndroid \<and> videoUseCase)"
  shows "b \<in> set (formats d) \<and> (\<forall>f \<in> set (formats d). photoPixels f \<le> photoPixels b)
     \<and> 0 < photoPixels b"
proof (cases isAndroid)
  case True
  then have "reduceMaxPixels photoPixels (formats d) = Some b"
    using assms by (simp add: selectedFormat_def)
  then show ?thesis by (rule reduceMaxPixels_Some)
next
  case False
  then have "pickBestPhotoFormat False (formats d) PresetMax 10 = Some b"
    using assms by (simp add: selectedFormat_def)
  then show ?thesis by (rule pickBestPhotoFormat_max_Some)
qed

lemma selectedFormat_max_None:
  assumes "selectedFormat isAndroid videoUseCase PresetMax (Some d) = None"
    and "\<not> (isAndroid \<and> videoUseCase)"
  shows "\<forall>f \<in> set (formats d). photoPixels f = 0"
proof (cases isAndroid)
  case True
  then have "reduceMaxPixels photoPixels (formats d) = None"
    using assms by (simp add: selectedFormat_def)
  then show ?thesis by (rule reduceMaxPixels_None)
next
  case False
  then have "pickBestPhotoFormat False (formats d) PresetMax 10 = None"
    using assms by (simp add: selectedFormat_def)
  then show ?thesis by (rule pickBestPhotoFormat_max_None)
qed

lemma formatStep_inv:
  assumes "scanInv S acc"
  shows "scanInv (insert (dev, fmt) S) (formatStep dev fmt acc)"
proof -
  obtain b p where acc: "acc = (b, p)" by (cases acc) auto
  show ?thesis
  proof (cases b)
    case None
    then show ?thesis using assms acc
      unfolding formatStep_def photoPixels_def [symmetric]
      by (auto simp: scanInv_def Let_def)
  next
    case (Some bd)
    then show ?thesis using assms acc
      unfolding formatStep_def photoPixels_def [symmetric]
      by (fastforce simp: scanInv_def Let_def)
  qed
qed

lemma scanFormats_inv:
  "scanInv S acc \<Longrightarrow> scanInv (S \<union> {dev} \<times> set fmts) (scanFormats dev fmts acc)"
proof (induction fmts arbitrary: S acc)
  case Nil
  then show ?case by simp
next
  case (Cons fmt fmts)
  have "scanInv (insert (dev, fmt) S \<union> {dev} \<times> set fmts)
          (scanFormats dev fmts (formatStep dev fmt acc))"
    by (rule Cons.IH [OF formatStep_inv [OF Cons.prems]])
  moreover have "insert (dev, fmt) S \<union> {dev} \<times> set fmts = S \<union> {dev} \<times> set (fmt # fmts)"
    by auto
  ultimately show ?case by simp
qed

lemma scanDevices_inv:
  "scanInv S acc \<Longrightarrow> scanInv (S \<union> backFormats devs) (scanDevices devs acc)"
proof (induction devs arbitrary: S acc)
  case Nil
  then show ?case by (simp add: backFormats_def)
next
  case (Cons dev devs)
  show ?case
  proof (cases "position dev = Back")
    case True
    have "scanInv ((S \<union> {dev} \<times> set (formats dev)) \<union> backFormats devs)
            (scanDevices devs (scanFormats dev (formats dev) acc))"
      by (rule Cons.IH [OF scanFormats_inv [OF Cons.prems]])
    moreover have "(S \<union> {dev} \<times> set (formats dev)) \<union> backFormats devs
        = S \<union> backFormats (dev # devs)"
      using True by (auto simp: backFormats_def)
    ultimately show ?thesis using True by simp
  next
    case False
    have "S \<union> backFormats devs = S \<union> backFormats (dev # devs)"
      using False by (auto simp: backFormats_def)
    then show ?thesis using Cons.IH [OF Cons.prems] False by simp
  qed
qed

lemma scan_all_inv: "scanInv (backFormats allDevices) (scanDevices allDevices (None, 0))"
proof -
  have "scanInv {} (None, 0)" by (simp add: scanInv_def)
  from scanDevices_inv [OF this, of allDevices] show ?thesis by simp
qed

lemma bestHighResDevice_None:
  assumes "bestHighResDevice allDevices = None"
  shows "\<forall>(d', f') \<in> backFormats allDevices. photoPixels f' = 0"
proof (cases "allDevices = []")
  case True
  then show ?thesis by (simp add: backFormats_def)
next
  case False
  obtain b p where bp: "scanDevices allDevices (None, 0) = (b, p)"
    by (cases "scanDevices allDevices (None, 0)") auto
  with assms False have "b = None" by (simp add: bestHighResDevice_def)
  then show ?thesis using scan_all_inv [of allDevices] bp
    by (auto simp: scanInv_def)
qed

lemma bestHighResDevice_Some:
  assumes "bestHighResDevice allDevices = Some d"
  shows "\<exists>p. 0 < p \<and> (\<exists>f. (d, f) \<in> backFormats allDevices \<and> photoPixels f = p)
     \<and> (\<forall>(d', f') \<in> backFormats allDevices. photoPixels f' \<le> p)
     \<and> (\<forall>(d', f') \<in> backFormats allDevices. photoPixels f' = p
            \<longrightarrow> scoreDevice d' \<le> scoreDevice d)"
proof -
  obtain b p where bp: "scanDevices allDevices (None, 0) = (b, p)"
    by (cases "scanDevices allDevices (None, 0)") auto
  with assms have "b = Some d" by (simp add: bestHighResDevice_def split: if_splits)
  then show ?thesis using scan_all_inv [of allDevices] bp
    by (auto simp: scanInv_def)
qed

lemma scoreDevice_dedicated_wide:
  "scoreDevice d \<le> 110 \<and> (scoreDevice d = 110 \<longleftrightarrow> physicalDevices d = [wide_angle_camera])"
proof (cases "physicalDevices d")
  case Nil
  then show ?thesis by (simp add: scoreDevice_def)
next
  case (Cons k ks)
  then show ?thesis
    by (cases k; cases ks) (auto simp: scoreDevice_def Let_def)
qed

section \<open>Device and format under the Max preset\<close>

text \<open>
  Counterexample for C1 (the selected format has at least as many photo pixels as every
  format of every device of the list): with the two back cameras reaching 48 megapixels
  and the front camera offering 63 megapixels, the Max preset on the photo path (Android,
  the video use case neither forced nor recording) selects the 48 megapixel format, which
  has fewer pixels than the front camera's format. The scan of \<open>bestHighResDevice\<close>
  skips every device whose position is not the back.
\<close>

theorem max_preset_skips_front_camera:
  "selectedFormat True (enableVideoUseCase True False False) PresetMax
     (selectDevice True PresetMax exampleDevices (Some wideDevice) (Some multiDevice)
        (Some multiDevice))
     = Some format48
   \<and> frontDevice \<in> set exampleDevices \<and> format63 \<in> set (formats frontDevice)
   \<and> photoPixels format48 < photoPixels format63"
  by (simp add: selectDevice_def bestHighResDevice_def formatStep_def scoreDevice_def
      selectedFormat_def enableVideoUseCase_def reduceMaxPixels_def keepLarger_def
      photoPixels_def exampleDevices_def multiDevice_def frontDevice_def wideDevice_def
      format12_def format48_def format63_def Let_def)

text \<open>
  Claim C1 as amended. Take the Max preset in max-resolution mode on the photo path (not
  Android with the video use case), any device list and any results of the device hooks.
  Whenever a format is selected, it has at least as many photo pixels as every format of
  every back camera of the list. When some back camera of the list has a format with a
  pixel count above 0, the selected device is a back camera of the list and the selected
  format is one of its formats; among the back cameras having a format with as many
  pixels, the selected device has the greatest \<open>scoreDevice\<close>, and it is a dedicated wide
  camera (its physical devices are exactly the wide-angle camera) whenever one of them
  is.
\<close>

theorem max_preset_selects_greatest:
  assumes photoPath: "\<not> (isAndroid \<and> videoUseCase)"
  shows
    "(let dev = selectDevice True PresetMax allDevices deviceWide deviceMulti deviceDefault;
          fmt = selectedFormat isAndroid videoUseCase PresetMax dev
      in (\<forall>f. fmt = Some f \<longrightarrow>
            (\<forall>(d', f') \<in> backFormats allDevices. photoPixels f' \<le> photoPixels f))
       \<and> ((\<exists>(d', f') \<in> backFormats allDevices. 0 < photoPixels f') \<longrightarrow>
            (\<exists>d f. dev = Some d \<and> d \<in> set allDevices \<and> position d = Back
               \<and> fmt = Some f \<and> f \<in> set (formats d)
               \<and> (\<forall>(d', f') \<in> backFormats allDevices.
                     photoPixels f' = photoPixels f \<longrightarrow> scoreDevice d' \<le> scoreDevice d)
               \<and> ((\<exists>(d', f') \<in> backFormats allDevices.
                      photoPixels f' = photoPixels f
                      \<and> physicalDevices d' = [wide_angle_camera])
                    \<longrightarrow> physicalDevices d = [wide_angle_camera]))))"
proof (cases "bestHighResDevice allDevices")
  case None
  from bestHighResDevice_None [OF None]
  have zero: "\<forall>(d', f') \<in> backFormats allDevices. photoPixels f' = 0" .
  then show ?thesis by (fastforce simp: Let_def)
next
  case (Some d)
  have dev: "selectDevice True PresetMax allDevices deviceWide deviceMulti deviceDefault = Some d"
    by (simp add: selectDevice_def Some Let_def)
  from bestHighResDevice_Some [OF Some] obtain p f0 where
    p: "0 < p" and f0: "(d, f0) \<in> backFormats allDevices" "photoPixels f0 = p"
    and le: "\<forall>(d', f') \<in> backFormats allDevices. photoPixels f' \<le> p"
    and tie: "\<forall>(d', f') \<in> backFormats allDevices. photoPixels f' = p
            \<longrightarrow> scoreDevice d' \<le> scoreDevice d"
    by blast
  have din: "d \<in> set allDevices" "position d = Back" "f0 \<in> set (formats d)"
    using f0 by (simp_all add: backFormats_def)
  obtain f where fmt: "selectedFormat isAndroid videoUseCase PresetMax (Some d) = Some f"
  proof (cases "selectedFormat isAndroid videoUseCase PresetMax (Some d)")
    case None
    from selectedFormat_max_None [OF None photoPath] din(3) have "photoPixels f0 = 0"
      by blast
    then show ?thesis using p f0 by simp
  next
    case (Some f)
    then show ?thesis using that by simp
  qed
  note sf = selectedFormat_max_Some [OF fmt photoPath]
  have fin: "(d, f) \<in> backFormats allDevices"
    using sf din by (simp add: backFormats_def)
  have "photoPixels f0 \<le> photoPixels f" using sf din(3) by blast
  moreover have "photoPixels f \<le> p" using le fin by blast
  ultimately have eq: "photoPixels f = p" using f0 by simp
  have wide: "physicalDevices d = [wide_angle_camera]"
    if "(d', f') \<in> backFormats allDevices" "photoPixels f' = photoPixels f"
      "physicalDevices d' = [wide_angle_camera]" for d' f'
  proof -
    have "scoreDevice d' \<le> scoreDevice d" using tie that eq by blast
    moreover have "scoreDevice d' = 110" using scoreDevice_dedicated_wide [of d'] that by simp
    ultimately have "scoreDevice d = 110" using scoreDevice_dedicated_wide [of d] by simp
    then show ?thesis using scoreDevice_dedicated_wide [of d] by simp
  qed
  show ?thesis
    unfolding Let_def dev fmt
    using le tie eq din sf wide by (auto simp: eq)
qed

text \<open>
  Witness for the amended C1: in the example list the logical triple camera comes first
  and reaches 48 megapixels, and the dedicated wide camera reaches them too; the wide
  camera is selected, with its 48 megapixel format.
\<close>

theorem max_preset_selects_greatest_witness:
  "\<not> (True \<and> False)
   \<and> (wideDevice, format12) \<in> backFormats exampleDevices
   \<and> 0 < photoPixels format12
   \<and> selectDevice True PresetMax exampleDevices (Some wideDevice) (Some multiDevice)
        (Some multiDevice) = Some wideDevice
   \<and> selectedFormat True False PresetMax (Some wideDevice) = Some format48
   \<and> photoPixels format12 \<le> photoPixels format48
   \<and> physicalDevices wideDevice = [wide_angle_camera]"
proof -
  have h: "\<not> (True \<and> False)" by simp
  have m: "(wideDevice, format12) \<in> backFormats exampleDevices"
    by (simp add: backFormats_def exampleDevices_def wideDevice_def)
  have pos: "0 < photoPixels format12"
    by (simp add: photoPixels_def format12_def)
  have dev: "selectDevice True PresetMax exampleDevices (Some wideDevice) (Some multiDevice)
        (Some multiDevice) = Some wideDevice"
    by (simp add: selectDevice_def bestHighResDevice_def formatStep_def scoreDevice_def
        exampleDevices_def multiDevice_def frontDevice_def wideDevice_def format12_def
        format48_def format63_def Let_def)
  have fmt: "selectedFormat True False PresetMax (Some wideDevice) = Some format48"
    by (simp add: selectedFormat_def reduceMaxPixels_def keepLarger_def photoPixels_def wideDevice_def
        format12_def format48_def)
  have "\<forall>(d', f') \<in> backFormats exampleDevices. photoPixels f' \<le> photoPixels format48"
    using max_preset_selects_greatest [OF h, where allDevices = exampleDevices
        and deviceWide = "Some wideDevice" and deviceMulti = "Some multiDevice"
        and deviceDefault = "Some multiDevice"] dev fmt
    by (simp add: Let_def)
  then have le: "photoPixels format12 \<le> photoPixels format48"
    using m by blast
  have w: "physicalDevices wideDevice = [wide_angle_camera]"
    by (simp add: wideDevice_def)
  show ?thesis using h m pos dev fmt le w by blast
qed

end
